theory Spec2Isabelle
  imports Main
begin

section \<open>Data model\<close>

text \<open>
  A Python \<^verbatim>\<open>str\<close> is a sequence of Unicode code points, a Python \<^verbatim>\<open>bytes\<close> a sequence
  of bytes. HOL's \<^typ>\<open>char\<close> is one byte, so \<^typ>\<open>string\<close> serves for \<^verbatim>\<open>bytes\<close>, and
  \<open>ascii\<close> reads an ASCII literal of the source as a \<^verbatim>\<open>str\<close>.
\<close>

type_synonym str = "nat list"

type_synonym bytes = "char list"

definition ascii :: "string \<Rightarrow> str" where
  "ascii cs = map of_char cs"

text \<open>
  Every error the source can meet is an instance of Python's \<^verbatim>\<open>Exception\<close>, so every
  \<^verbatim>\<open>except Exception as e\<close> catches it; the argument is \<^verbatim>\<open>str(e)\<close>.
\<close>

datatype exn = Exception str

fun str_of :: "exn \<Rightarrow> str" where
  "str_of (Exception m) = m"

text \<open>
  The three messages of \<^verbatim>\<open>socketio.emit\<close>: \<^verbatim>\<open>"console_clear"\<close>,
  \<^verbatim>\<open>"console_output"\<close> with its \<^verbatim>\<open>data\<close> and \<^verbatim>\<open>"open_url"\<close> with its \<^verbatim>\<open>url\<close>.
\<close>

datatype event = console_clear | console_output str | open_url str

text \<open>
  A \<^verbatim>\<open>subprocess.Popen\<close> object, as the parent sees the child: what
  \<^verbatim>\<open>proc.stdin.write\<close> and \<^verbatim>\<open>proc.stdin.close\<close> do (\<open>None\<close>: they return), the data
  that arrives on the merged stdout/stderr pipe, burst by burst (\<open>Inl\<close>: the read raises;
  an empty burst, or the end of the list, is the close of the pipe), and what
  \<^verbatim>\<open>proc.wait()\<close> does. The child's output is finite: a worker whose child never closes
  the pipe never finishes, and no claim is made about it.
\<close>

record proc =
  pid :: nat
  stdin_write :: "exn option"
  stdin_close :: "exn option"
  stdout_bursts :: "(exn + bytes) list"
  wait_result :: "exn + int"

text \<open>
  Every effect of the source on the world outside its local variables, in order: the
  lock, the occupancy test of a submission (with the value of the global
  \<^verbatim>\<open>current_process\<close> that it reads, and whose \<^verbatim>\<open>poll()\<close> it calls if it is a process), the
  events sent with \<^verbatim>\<open>socketio.emit\<close>, the calls on the child process and on the file
  system, the assignments to the global \<^verbatim>\<open>current_process\<close> and the calls of
  \<^verbatim>\<open>delayed_remove\<close>. \<^verbatim>\<open>socketio.emit\<close> and the start of a thread are taken to return.
\<close>

datatype action =
    LockAcquire
  | LockRelease
  | OccupancyTest "proc option"
  | Emit event
  | Popen "str list"
  | SetCurrent "proc option"
  | StdinWrite bytes
  | StdinClose
  | StdoutRead
  | Wait
  | PathExists str
  | DelayedRemove str nat

text \<open>The module's global \<^verbatim>\<open>current_process\<close>, and the effects so far.\<close>

record state =
  current_process :: "proc option"
  trace :: "action list"

text \<open>
  The host: \<^verbatim>\<open>TARGET_URL = os.getenv("END_URL")\<close> (\<open>None\<close> when the variable is unset),
  what \<^verbatim>\<open>subprocess.Popen(command, ...)\<close> does, what \<^verbatim>\<open>poll()\<close> returns for a process
  (\<open>None\<close>: still running) and \<^verbatim>\<open>os.path.exists\<close>.
\<close>

record world =
  TARGET_URL :: "str option"
  Popen_result :: "str list \<Rightarrow> exn + proc"
  poll :: "proc \<Rightarrow> int option"
  path_exists :: "str \<Rightarrow> bool"

section \<open>Effects\<close>

definition act :: "action \<Rightarrow> state \<Rightarrow> state" where
  "act a s = s\<lparr>trace := trace s @ [a]\<rparr>"

definition emit :: "event \<Rightarrow> state \<Rightarrow> state" where
  "emit e s = act (Emit e) s"

definition set_current :: "proc option \<Rightarrow> state \<Rightarrow> state" where
  "set_current v s = act (SetCurrent v) (s\<lparr>current_process := v\<rparr>)"

text \<open>
  \<^verbatim>\<open>delayed_remove(path, delay)\<close> starts a daemon thread that sleeps and then removes
  the file, swallowing every error: for its caller, one scheduling effect.
\<close>

definition delayed_remove :: "str \<Rightarrow> nat \<Rightarrow> state \<Rightarrow> state" where
  "delayed_remove path delay s = act (DelayedRemove path delay) s"

text \<open>
  The events emitted, the deletions scheduled, the slot releases and the commands started
  of a trace.
\<close>

fun emitted :: "action list \<Rightarrow> event list" where
  "emitted [] = []"
| "emitted (Emit e # as) = e # emitted as"
| "emitted (_ # as) = emitted as"

fun scheduled :: "action list \<Rightarrow> (str \<times> nat) list" where
  "scheduled [] = []"
| "scheduled (DelayedRemove p d # as) = (p, d) # scheduled as"
| "scheduled (_ # as) = scheduled as"

fun releases :: "action list \<Rightarrow> nat" where
  "releases [] = 0"
| "releases (SetCurrent None # as) = Suc (releases as)"
| "releases (_ # as) = releases as"

fun commands :: "action list \<Rightarrow> str list list" where
  "commands [] = []"
| "commands (Popen c # as) = c # commands as"
| "commands (_ # as) = commands as"

section \<open>Text\<close>

text \<open>\<^verbatim>\<open>str(n)\<close> for an integer, as the f-string of the exit line formats it.\<close>

fun str_nat :: "nat \<Rightarrow> str" where
  "str_nat n = (if n < 10 then [48 + n] else str_nat (n div 10) @ [48 + n mod 10])"

declare str_nat.simps [simp del]

definition str_int :: "int \<Rightarrow> str" where
  "str_int i = (if i < 0 then ascii ''-'' @ str_nat (nat (- i)) else str_nat (nat i))"

text \<open>Python's truth value of an optional string: neither \<^verbatim>\<open>None\<close> nor empty.\<close>

fun truthy :: "str option \<Rightarrow> bool" where
  "truthy None = False"
| "truthy (Some m) = (m \<noteq> [])"

definition busy_msg :: str where
  "busy_msg = ascii ''[process already running '' @ [8211] @ ascii '' wait for it to finish]\<newline>''"

definition welcome_text :: "str \<Rightarrow> str" where
  "welcome_text m = ascii ''['' @ m @ ascii '']\<newline>''"

definition spawn_failure_text :: "exn \<Rightarrow> str" where
  "spawn_failure_text e = ascii ''Failed to start command: '' @ str_of e @ ascii ''\<newline>''"

definition stdin_error_text :: "exn \<Rightarrow> str" where
  "stdin_error_text e = ascii ''[error writing to stdin: '' @ str_of e @ ascii '']\<newline>''"

definition exit_text :: "int \<Rightarrow> str" where
  "exit_text retcode =
     ascii ''\<newline>[process exited with code '' @ str_int retcode @ ascii '']\<newline>''"

section \<open>Lenient UTF-8 decoding\<close>

text \<open>
  \<^verbatim>\<open>chunk.decode("utf-8", errors="replace")\<close>, Python's built-in decoder: a well-formed
  sequence gives its code point; an ill-formed one gives one replacement marker U+FFFD
  for its maximal valid prefix (an invalid start byte alone, a lead byte with the
  continuation bytes that fit it, or a truncated sequence at the end of the input), and
  decoding resumes right after that prefix.
\<close>

definition U_FFFD :: nat where
  "U_FFFD = 65533"

definition is_continuation :: "char \<Rightarrow> bool" where
  "is_continuation b = (128 \<le> (of_char b :: nat) \<and> (of_char b :: nat) < 192)"

text \<open>
  The second byte of a three- and of a four-byte sequence: a continuation byte, and not
  an overlong form (E0, F0), a surrogate (ED) or a value above U+10FFFF (F4).
\<close>

definition second_ok3 :: "nat \<Rightarrow> char \<Rightarrow> bool" where
  "second_ok3 ch b2 =
     (is_continuation b2 \<and> \<not> (if (of_char b2 :: nat) < 160 then ch = 224 else ch = 237))"

definition second_ok4 :: "nat \<Rightarrow> char \<Rightarrow> bool" where
  "second_ok4 ch b2 =
     (is_continuation b2 \<and> \<not> (if (of_char b2 :: nat) < 144 then ch = 240 else ch = 244))"

definition low6 :: "char \<Rightarrow> nat" where
  "low6 b = of_char b - 128"

fun decode_utf8_replace :: "bytes \<Rightarrow> str" where
  "decode_utf8_replace [] = []"
| "decode_utf8_replace (b # bs) =
     (let ch = (of_char b :: nat) in
      if ch < 128 then ch # decode_utf8_replace bs
      else if ch < 194 then U_FFFD # decode_utf8_replace bs
      else if ch < 224 then
        (case bs of
           [] \<Rightarrow> [U_FFFD]
         | b2 # r2 \<Rightarrow>
             if is_continuation b2 then ((ch - 192) * 64 + low6 b2) # decode_utf8_replace r2
             else U_FFFD # decode_utf8_replace bs)
      else if ch < 240 then
        (case bs of
           [] \<Rightarrow> [U_FFFD]
         | b2 # r2 \<Rightarrow>
             if \<not> second_ok3 ch b2 then U_FFFD # decode_utf8_replace bs
             else
               (case r2 of
                  [] \<Rightarrow> [U_FFFD]
                | b3 # r3 \<Rightarrow>
                    if is_continuation b3
                    then ((ch - 224) * 4096 + low6 b2 * 64 + low6 b3) # decode_utf8_replace r3
                    else U_FFFD # decode_utf8_replace r2))
      else if ch < 245 then
        (case bs of
           [] \<Rightarrow> [U_FFFD]
         | b2 # r2 \<Rightarrow>
             if \<not> second_ok4 ch b2 then U_FFFD # decode_utf8_replace bs
             else
               (case r2 of
                  [] \<Rightarrow> [U_FFFD]
                | b3 # r3 \<Rightarrow>
                    if \<not> is_continuation b3 then U_FFFD # decode_utf8_replace r2
                    else
                      (case r3 of
                         [] \<Rightarrow> [U_FFFD]
                       | b4 # r4 \<Rightarrow>
                           if is_continuation b4
                           then ((ch - 240) * 262144 + low6 b2 * 4096 + low6 b3 * 64 + low6 b4)
                                  # decode_utf8_replace r4
                           else U_FFFD # decode_utf8_replace r3)))
      else U_FFFD # decode_utf8_replace bs)"

section \<open>The job slot and the process runner\<close>

text \<open>
  The test under the lock, \<^verbatim>\<open>current_process is not None and current_process.poll() is None\<close>:
  the slot holds a process that is still running.
\<close>

definition busy :: "world \<Rightarrow> state \<Rightarrow> bool" where
  "busy w s = (case current_process s of None \<Rightarrow> False | Some p \<Rightarrow> poll w p = None)"

text \<open>
  \<^verbatim>\<open>start_process_and_stream\<close>, up to the start of the worker thread. The whole of it
  but the thread start runs inside \<^verbatim>\<open>with process_lock\<close>: the lock is taken, then the
  \<^verbatim>\<open>if\<close> tests the global, and so on. It returns the state and, when
  it starts the worker, the arguments of \<^verbatim>\<open>stream_output\<close>: the global
  \<^verbatim>\<open>current_process\<close> as read after the lock is released, the stdin data and the end
  file.
\<close>

definition start_process_and_stream ::
  "world \<Rightarrow> str list \<Rightarrow> bytes option \<Rightarrow> str option \<Rightarrow> str option \<Rightarrow> state
     \<Rightarrow> state \<times> (proc option \<times> bytes option \<times> str option) option" where
  "start_process_and_stream w command stdin_data welcome_msg end_file s0 =
     (let locked = act LockAcquire s0;
          s1 = act (OccupancyTest (current_process locked)) locked
      in
      if busy w s1
      then (act LockRelease (emit (console_output busy_msg) s1), None)
      else
        let s2 = emit console_clear s1;
            s3 = (if truthy welcome_msg
                  then emit (console_output (welcome_text (the welcome_msg))) s2 else s2);
            s4 = act (Popen command) s3
        in case Popen_result w command of
             Inl e \<Rightarrow>
               (act LockRelease
                  (set_current None (emit (console_output (spawn_failure_text e)) s4)), None)
           | Inr p \<Rightarrow>
               let s5 = act LockRelease (set_current (Some p) s4)
               in (s5, Some (current_process s5, stdin_data, end_file)))"

text \<open>
  The inner \<^verbatim>\<open>try\<close> of \<^verbatim>\<open>stream_output\<close>: write, then close; the first of them that
  raises is reported and ends the block. \<^verbatim>\<open>Popen\<close> was given \<^verbatim>\<open>stdin=PIPE\<close> and
  \<^verbatim>\<open>stdout=PIPE\<close>, so \<^verbatim>\<open>proc.stdin\<close> and \<^verbatim>\<open>proc.stdout\<close> are stream objects, and true.
\<close>

definition write_stdin :: "proc \<Rightarrow> bytes \<Rightarrow> state \<Rightarrow> state" where
  "write_stdin p d s =
     (let s1 = act (StdinWrite d) s in
      case stdin_write p of
        Some e \<Rightarrow> emit (console_output (stdin_error_text e)) s1
      | None \<Rightarrow>
          let s2 = act StdinClose s1 in
          (case stdin_close p of
             Some e \<Rightarrow> emit (console_output (stdin_error_text e)) s2
           | None \<Rightarrow> s2))"

text \<open>
  \<^verbatim>\<open>proc.stdout.read(n)\<close> on the unbuffered pipe: it returns what has arrived, at most
  \<open>n\<close> bytes of it, and leaves the rest of the burst for the next read; it returns
  \<^verbatim>\<open>b""\<close> when the pipe is closed. The result is what the call returns or raises, and
  the pipe after it.
\<close>

fun stdout_read :: "nat \<Rightarrow> (exn + bytes) list \<Rightarrow> (exn + bytes) \<times> (exn + bytes) list" where
  "stdout_read n [] = (Inr [], [])"
| "stdout_read n (Inl e # rest) = (Inl e, rest)"
| "stdout_read n (Inr b # rest) =
     (Inr (take n b), if drop n b = [] then rest else Inr (drop n b) # rest)"

definition pipe_size :: "(exn + bytes) list \<Rightarrow> nat" where
  "pipe_size pipe = sum_list (map (\<lambda>x. case x of Inl e \<Rightarrow> 1 | Inr b \<Rightarrow> Suc (length b)) pipe)"

lemma stdout_read_smaller:
  "stdout_read 4096 pipe = (Inr chunk, pipe') \<Longrightarrow> chunk \<noteq> [] \<Longrightarrow> pipe_size pipe' < pipe_size pipe"
  by (cases "(4096 :: nat, pipe)" rule: stdout_read.cases) (auto simp: pipe_size_def)

text \<open>
  The \<^verbatim>\<open>while True\<close> loop of \<^verbatim>\<open>stream_output\<close>: read, leave on an empty chunk, else
  decode and emit. The result is the exception that left the loop, if any, and the state.
\<close>

function drain :: "(exn + bytes) list \<Rightarrow> state \<Rightarrow> exn option \<times> state" where
  "drain pipe s =
     (let s1 = act StdoutRead s in
      case stdout_read 4096 pipe of
        (Inl e, pipe') \<Rightarrow> (Some e, s1)
      | (Inr chunk, pipe') \<Rightarrow>
          if chunk = [] then (None, s1)
          else drain pipe' (emit (console_output (decode_utf8_replace chunk)) s1))"
  by pat_completeness auto

termination
  by (relation "measure (\<lambda>(pipe, s). pipe_size pipe)") (auto simp: stdout_read_smaller [OF sym])

declare drain.simps [simp del]

text \<open>
  The two errors that the source itself provokes: \<^verbatim>\<open>TARGET_URL + end_file\<close> when
  \<^verbatim>\<open>TARGET_URL\<close> is \<^verbatim>\<open>None\<close>, and an attribute of \<^verbatim>\<open>None\<close>.
\<close>

definition TypeError :: exn where
  "TypeError = Exception (ascii ''unsupported operand type(s) for +'')"

definition AttributeError :: exn where
  "AttributeError = Exception (ascii ''NoneType object has no attribute'')"

text \<open>The steps of \<^verbatim>\<open>stream_output\<close> after the loop, inside the outer \<^verbatim>\<open>try\<close>.\<close>

definition announce_end_file :: "world \<Rightarrow> str option \<Rightarrow> state \<Rightarrow> exn option \<times> state" where
  "announce_end_file w end_file s =
     (if \<not> truthy end_file then (None, s)
      else
        let f = the end_file; s1 = act (PathExists f) s in
        if \<not> path_exists w f then (None, s1)
        else
          (case TARGET_URL w of
             None \<Rightarrow> (Some TypeError, s1)
           | Some u \<Rightarrow> (None, delayed_remove f 30 (emit (open_url (u @ f)) s1))))"

definition wait_and_report :: "world \<Rightarrow> proc \<Rightarrow> str option \<Rightarrow> state \<Rightarrow> exn option \<times> state" where
  "wait_and_report w p end_file s =
     (let s1 = act Wait s in
      case wait_result p of
        Inl e \<Rightarrow> (Some e, s1)
      | Inr retcode \<Rightarrow> announce_end_file w end_file (emit (console_output (exit_text retcode)) s1))"

text \<open>
  The body of the outer \<^verbatim>\<open>try\<close>. Were the worker handed \<^verbatim>\<open>None\<close> for the process, its
  first attribute access would raise.
\<close>

definition stream_output_body ::
  "world \<Rightarrow> proc option \<Rightarrow> bytes option \<Rightarrow> str option \<Rightarrow> state \<Rightarrow> exn option \<times> state" where
  "stream_output_body w proc stdin end_file s =
     (case proc of
        None \<Rightarrow> (Some AttributeError, s)
      | Some p \<Rightarrow>
          let s1 = (case stdin of None \<Rightarrow> s | Some d \<Rightarrow> write_stdin p d s) in
          (case drain (stdout_bursts p) s1 of
             (Some e, s2) \<Rightarrow> (Some e, s2)
           | (None, s2) \<Rightarrow> wait_and_report w p end_file s2))"

text \<open>
  \<^verbatim>\<open>stream_output\<close>: the body, then the \<^verbatim>\<open>finally\<close> block, whatever the body did. The
  exception that the thread dies of, if any, is returned with the state.
\<close>

definition stream_output ::
  "world \<Rightarrow> proc option \<Rightarrow> bytes option \<Rightarrow> str option \<Rightarrow> state \<Rightarrow> exn option \<times> state" where
  "stream_output w proc stdin end_file s =
     (case stream_output_body w proc stdin end_file s of
        (r, s1) \<Rightarrow> (r, act LockRelease (set_current None (act LockAcquire s1))))"

text \<open>
  One job from submission to the end of its worker thread: the call of
  \<^verbatim>\<open>start_process_and_stream\<close> and then, when it started one, the thread
  \<^verbatim>\<open>stream_output\<close> run to its end, with no other submission in between. A submission
  that arrives while the worker runs is a call of \<^verbatim>\<open>start_process_and_stream\<close> in the
  state that the first call returned.
\<close>

definition run_job ::
  "world \<Rightarrow> str list \<Rightarrow> bytes option \<Rightarrow> str option \<Rightarrow> str option \<Rightarrow> state \<Rightarrow> state" where
  "run_job w command stdin_data welcome_msg end_file s =
     (case start_process_and_stream w command stdin_data welcome_msg end_file s of
        (s1, None) \<Rightarrow> s1
      | (s1, Some (proc, stdin, ef)) \<Rightarrow> snd (stream_output w proc stdin ef s1))"

section \<open>What the drain loop reads\<close>

text \<open>
  The non-empty chunks that the reads of the loop return, in order, until the loop ends;
  the exception that ends it, if one does; and the bytes that the child delivered until
  then.
\<close>

function chunks_read :: "(exn + bytes) list \<Rightarrow> bytes list" where
  "chunks_read pipe =
     (case stdout_read 4096 pipe of
        (Inl e, pipe') \<Rightarrow> []
      | (Inr chunk, pipe') \<Rightarrow> if chunk = [] then [] else chunk # chunks_read pipe')"
  by pat_completeness auto

termination
  by (relation "measure pipe_size") (auto simp: stdout_read_smaller [OF sym])

declare chunks_read.simps [simp del]

function read_failure :: "(exn + bytes) list \<Rightarrow> exn option" where
  "read_failure pipe =
     (case stdout_read 4096 pipe of
        (Inl e, pipe') \<Rightarrow> Some e
      | (Inr chunk, pipe') \<Rightarrow> if chunk = [] then None else read_failure pipe')"
  by pat_completeness auto

termination
  by (relation "measure pipe_size") (auto simp: stdout_read_smaller [OF sym])

declare read_failure.simps [simp del]

fun delivered :: "(exn + bytes) list \<Rightarrow> bytes" where
  "delivered [] = []"
| "delivered (Inl e # rest) = []"
| "delivered (Inr b # rest) = (if b = [] then [] else b @ delivered rest)"

section \<open>The effects of the steps, as lists\<close>

text \<open>The effects of the loop: a read and an emit for each chunk, then the last read.\<close>

definition drain_trace :: "(exn + bytes) list \<Rightarrow> action list" where
  "drain_trace pipe =
     concat (map (\<lambda>c. [StdoutRead, Emit (console_output (decode_utf8_replace c))]) (chunks_read pipe))
       @ [StdoutRead]"

text \<open>The welcome line, when the message is neither \<^verbatim>\<open>None\<close> nor empty.\<close>

definition welcome_events :: "str option \<Rightarrow> event list" where
  "welcome_events welcome_msg =
     (if truthy welcome_msg then [console_output (welcome_text (the welcome_msg))] else [])"

text \<open>
  The effects of the stdin step, by what \<^verbatim>\<open>write\<close> and \<^verbatim>\<open>close\<close> do, and those of the
  end-file step, by whether the file exists and \<^verbatim>\<open>TARGET_URL\<close> is set.
\<close>

definition stdin_trace :: "proc \<Rightarrow> bytes option \<Rightarrow> action list" where
  "stdin_trace p stdin =
     (case stdin of
        None \<Rightarrow> []
      | Some d \<Rightarrow>
          (case stdin_write p of
             Some e \<Rightarrow> [StdinWrite d, Emit (console_output (stdin_error_text e))]
           | None \<Rightarrow>
               (case stdin_close p of
                  Some e \<Rightarrow> [StdinWrite d, StdinClose, Emit (console_output (stdin_error_text e))]
                | None \<Rightarrow> [StdinWrite d, StdinClose])))"

definition end_file_trace :: "world \<Rightarrow> str option \<Rightarrow> action list" where
  "end_file_trace w end_file =
     (if \<not> truthy end_file then []
      else if \<not> path_exists w (the end_file) then [PathExists (the end_file)]
      else
        (case TARGET_URL w of
           None \<Rightarrow> [PathExists (the end_file)]
         | Some u \<Rightarrow>
             [PathExists (the end_file), Emit (open_url (u @ the end_file)),
              DelayedRemove (the end_file) 30]))"

text \<open>The effects of the steps from \<^verbatim>\<open>wait\<close> on, and of the whole body for a process.\<close>

definition wait_trace :: "world \<Rightarrow> proc \<Rightarrow> str option \<Rightarrow> action list" where
  "wait_trace w p end_file =
     Wait # (case wait_result p of
               Inl e \<Rightarrow> []
             | Inr retcode \<Rightarrow> Emit (console_output (exit_text retcode)) # end_file_trace w end_file)"

definition body_trace :: "world \<Rightarrow> proc \<Rightarrow> bytes option \<Rightarrow> str option \<Rightarrow> action list" where
  "body_trace w p stdin end_file =
     stdin_trace p stdin @ drain_trace (stdout_bursts p)
       @ (case read_failure (stdout_bursts p) of
            Some e \<Rightarrow> []
          | None \<Rightarrow> wait_trace w p end_file)"

text \<open>
  The events of the end-file step of a worker: none when a read or \<^verbatim>\<open>wait\<close> raised before
  it.
\<close>

definition end_file_events :: "world \<Rightarrow> proc \<Rightarrow> str option \<Rightarrow> event list" where
  "end_file_events w p end_file =
     (case read_failure (stdout_bursts p) of
        Some e \<Rightarrow> []
      | None \<Rightarrow> (case wait_result p of Inl e \<Rightarrow> [] | Inr retcode \<Rightarrow> emitted (end_file_trace w end_file)))"

text \<open>The locators of the \<^verbatim>\<open>open_url\<close> events among some events.\<close>

fun locators :: "event list \<Rightarrow> str list" where
  "locators [] = []"
| "locators (open_url l # es) = l # locators es"
| "locators (_ # es) = locators es"

text \<open>An event with the locator of an \<^verbatim>\<open>open_url\<close> blanked.\<close>

fun erase_locator :: "event \<Rightarrow> event" where
  "erase_locator (open_url l) = open_url []"
| "erase_locator e = e"

section \<open>Comparing decoded texts\<close>

text \<open>The classes of a first byte: ASCII, never a first byte, or the lead of 2, 3 or 4 bytes.\<close>

definition single_byte :: "char \<Rightarrow> bool" where
  "single_byte x = ((of_char x :: nat) < 128)"

definition invalid_start :: "char \<Rightarrow> bool" where
  "invalid_start x = ((128 \<le> (of_char x :: nat) \<and> (of_char x :: nat) < 194) \<or> 245 \<le> (of_char x :: nat))"

definition lead2 :: "char \<Rightarrow> bool" where
  "lead2 x = (194 \<le> (of_char x :: nat) \<and> (of_char x :: nat) < 224)"

definition lead3 :: "char \<Rightarrow> bool" where
  "lead3 x = (224 \<le> (of_char x :: nat) \<and> (of_char x :: nat) < 240)"

definition lead4 :: "char \<Rightarrow> bool" where
  "lead4 x = (240 \<le> (of_char x :: nat) \<and> (of_char x :: nat) < 245)"

text \<open>
  \<open>substitute xs ns\<close> is the text \<open>xs\<close> in which the character at each position with a
  count \<open>n > 0\<close> is replaced by \<open>n\<close> replacement markers. \<open>replaced k xs ys\<close> says that
  \<open>ys\<close> is \<open>xs\<close> with at most \<open>k\<close> characters so replaced, and \<open>head_replaced\<close> that
  at most the first one is.
\<close>

inductive replaced :: "nat \<Rightarrow> str \<Rightarrow> str \<Rightarrow> bool" where
  nil: "replaced k [] []"
| keep: "replaced k xs ys \<Longrightarrow> replaced k (x # xs) (x # ys)"
| subst: "replaced k xs ys \<Longrightarrow> 0 < n \<Longrightarrow> replaced (Suc k) (x # xs) (replicate n U_FFFD @ ys)"

fun substitute :: "str \<Rightarrow> nat list \<Rightarrow> str" where
  "substitute (x # xs) (n # ns) = (if n = 0 then [x] else replicate n U_FFFD) @ substitute xs ns"
| "substitute xs ns = []"

definition head_replaced :: "str \<Rightarrow> str \<Rightarrow> bool" where
  "head_replaced xs ys =
     (\<exists>d ds. xs = d # ds \<and> (ys = d # ds \<or> (\<exists>n. 0 < n \<and> ys = replicate n U_FFFD @ ds)))"

section \<open>Concrete hosts and jobs\<close>

text \<open>The state of the module when it is loaded: no process, nothing done yet.\<close>

definition idle :: state where
  "idle = \<lparr>current_process = None, trace = []\<rparr>"

text \<open>A host on which no command can be started.\<close>

definition no_such_file :: exn where
  "no_such_file = Exception (ascii ''[Errno 2] No such file or directory'')"

definition bare_host :: world where
  "bare_host = \<lparr>TARGET_URL = None, Popen_result = (\<lambda>c. Inl no_such_file),
     poll = (\<lambda>p. None), path_exists = (\<lambda>f. False)\<rparr>"

text \<open>
  The print job of \<^verbatim>\<open>handle_print\<close> on a host where \<^verbatim>\<open>lp\<close> starts, prints one line
  and exits with code 0, and the state right after that job was accepted: its worker has
  been started and has not reached its \<^verbatim>\<open>finally\<close> block.
\<close>

definition print_command :: "str list" where
  "print_command = [ascii ''lp'', ascii ''-d'', ascii ''caos_printer'', ascii ''-'']"

definition lp_proc :: proc where
  "lp_proc = \<lparr>pid = 1, stdin_write = None, stdin_close = None,
     stdout_bursts = [Inr ''request id is caos_printer-1\<newline>''], wait_result = Inr 0\<rparr>"

definition print_host :: world where
  "print_host = \<lparr>TARGET_URL = Some (ascii ''http://host/''), Popen_result = (\<lambda>c. Inr lp_proc),
     poll = (\<lambda>p. None), path_exists = (\<lambda>f. False)\<rparr>"

definition first_accepted :: state where
  "first_accepted =
     fst (start_process_and_stream print_host print_command (Some ''doc'')
            (Some (ascii ''Beginning print'')) None idle)"

text \<open>The same host a moment later: every child has exited, a new one gets the next pid.\<close>

definition exited_host :: world where
  "exited_host =
     print_host\<lparr>Popen_result := (\<lambda>c. Inr (lp_proc\<lparr>pid := 2\<rparr>)), poll := (\<lambda>p. Some 0)\<rparr>"

text \<open>
  A host where the child refuses its input, prints a little and then makes the read
  fail, and where \<^verbatim>\<open>END_URL\<close> is not set.
\<close>

definition crashing_proc :: proc where
  "crashing_proc = \<lparr>pid = 3, stdin_write = Some (Exception (ascii ''[Errno 32] Broken pipe'')),
     stdin_close = None,
     stdout_bursts = [Inr ''lp: '', Inl (Exception (ascii ''[Errno 5] Input/output error''))],
     wait_result = Inr 1\<rparr>"

definition crashing_host :: world where
  "crashing_host = \<lparr>TARGET_URL = None, Popen_result = (\<lambda>c. Inr crashing_proc),
     poll = (\<lambda>p. None), path_exists = (\<lambda>f. True)\<rparr>"

text \<open>
  The job \<^verbatim>\<open>echo hi\<close> on a host without \<^verbatim>\<open>END_URL\<close>, and a scan job whose command
  leaves the file \<^verbatim>\<open>scan.pdf\<close> behind.
\<close>

definition echo_command :: "str list" where
  "echo_command = [ascii ''echo'', ascii ''hi'']"

definition echo_proc :: proc where
  "echo_proc = \<lparr>pid = 4, stdin_write = None, stdin_close = None,
     stdout_bursts = [Inr ''hi\<newline>''], wait_result = Inr 0\<rparr>"

definition echo_host :: world where
  "echo_host = \<lparr>TARGET_URL = None, Popen_result = (\<lambda>c. Inr echo_proc),
     poll = (\<lambda>p. None), path_exists = (\<lambda>f. False)\<rparr>"

definition scan_command :: "str list" where
  "scan_command = [ascii ''bash'', ascii ''-c'', ascii ''img2pdf page-*.jpg -o scan.pdf'']"

definition scan_proc :: proc where
  "scan_proc = \<lparr>pid = 5, stdin_write = None, stdin_close = None,
     stdout_bursts = [Inr ''Scanned page 1.\<newline>''], wait_result = Inr 0\<rparr>"

definition scan_host :: world where
  "scan_host = \<lparr>TARGET_URL = Some (ascii ''http://host/''), Popen_result = (\<lambda>c. Inr scan_proc),
     poll = (\<lambda>p. None), path_exists = (\<lambda>f. f = ascii ''scan.pdf'')\<rparr>"

text \<open>The scan host with another value of \<^verbatim>\<open>END_URL\<close>.\<close>

definition other_scan_host :: world where
  "other_scan_host = scan_host\<lparr>TARGET_URL := Some (ascii ''http://other/'')\<rparr>"

text \<open>The scan host with \<^verbatim>\<open>END_URL\<close> not set.\<close>

definition unset_scan_host :: world where
  "unset_scan_host = scan_host\<lparr>TARGET_URL := None\<rparr>"

text \<open>A child that prints \<^verbatim>\<open>h\<close>, an e with acute accent and \<^verbatim>\<open>!\<close>, the accent's two
  bytes arriving in two bursts.\<close>

definition accent_proc :: proc where
  "accent_proc = \<lparr>pid = 6, stdin_write = None, stdin_close = None,
     stdout_bursts = [Inr [CHR 0x68, CHR 0xC3], Inr [CHR 0xA9, CHR 0x21]], wait_result = Inr 0\<rparr>"

definition accent_host :: world where
  "accent_host = \<lparr>TARGET_URL = None, Popen_result = (\<lambda>c. Inr accent_proc),
     poll = (\<lambda>p. None), path_exists = (\<lambda>f. False)\<rparr>"

section \<open>Basic facts\<close>

subsection \<open>States and traces\<close>

lemma trace_act [simp]: "trace (act a s) = trace s @ [a]"
  by (simp add: act_def)

lemma current_process_act [simp]: "current_process (act a s) = current_process s"
  by (simp add: act_def)

lemma trace_emit [simp]: "trace (emit e s) = trace s @ [Emit e]"
  by (simp add: emit_def)

lemma current_process_emit [simp]: "current_process (emit e s) = current_process s"
  by (simp add: emit_def)

lemma trace_set_current [simp]: "trace (set_current v s) = trace s @ [SetCurrent v]"
  by (simp add: set_current_def)

lemma current_process_set_current [simp]: "current_process (set_current v s) = v"
  by (simp add: set_current_def)

lemma trace_delayed_remove [simp]: "trace (delayed_remove f d s) = trace s @ [DelayedRemove f d]"
  by (simp add: delayed_remove_def)

lemma current_process_delayed_remove [simp]:
  "current_process (delayed_remove f d s) = current_process s"
  by (simp add: delayed_remove_def)

lemma busy_act [simp]: "busy w (act a s) = busy w s"
  by (simp add: busy_def)

lemma emitted_append [simp]: "emitted (xs @ ys) = emitted xs @ emitted ys"
  by (induction xs rule: emitted.induct) simp_all

lemma scheduled_append [simp]: "scheduled (xs @ ys) = scheduled xs @ scheduled ys"
  by (induction xs rule: scheduled.induct) simp_all

lemma releases_append [simp]: "releases (xs @ ys) = releases xs + releases ys"
  by (induction xs rule: releases.induct) simp_all

subsection \<open>The steps of a job\<close>

lemma drain_trace_unfold:
  "drain_trace pipe =
     (case stdout_read 4096 pipe of
        (Inl e, pipe') \<Rightarrow> [StdoutRead]
      | (Inr chunk, pipe') \<Rightarrow>
          if chunk = [] then [StdoutRead]
          else StdoutRead # Emit (console_output (decode_utf8_replace chunk)) # drain_trace pipe')"
  unfolding drain_trace_def
  by (subst chunks_read.simps) (simp split: prod.splits sum.splits)

lemma drain_eq:
  "drain pipe s = (read_failure pipe, s\<lparr>trace := trace s @ drain_trace pipe\<rparr>)"
proof (induction pipe s rule: drain.induct)
  case (1 pipe s)
  show ?case
  proof (cases "stdout_read 4096 pipe")
    case (Pair r pipe')
    show ?thesis
    proof (cases r)
      case (Inl e)
      with Pair show ?thesis
        by (subst drain.simps, subst read_failure.simps, subst drain_trace_unfold)
           (simp add: act_def)
    next
      case (Inr chunk)
      show ?thesis
      proof (cases "chunk = []")
        case True
        with Pair Inr show ?thesis
          by (subst drain.simps, subst read_failure.simps, subst drain_trace_unfold)
             (simp add: act_def)
      next
        case False
        with Pair Inr "1.IH" [of "act StdoutRead s" r pipe' chunk] show ?thesis
          by (subst drain.simps, subst read_failure.simps, subst drain_trace_unfold)
             (simp add: act_def emit_def)
      qed
    qed
  qed
qed

lemma start_busy:
  "busy w s \<Longrightarrow>
   start_process_and_stream w command stdin_data welcome_msg end_file s =
     (s\<lparr>trace := trace s @ [LockAcquire, OccupancyTest (current_process s),
          Emit (console_output busy_msg), LockRelease]\<rparr>, None)"
  by (simp add: start_process_and_stream_def Let_def act_def emit_def busy_def)

lemma start_spawn_failed:
  "\<not> busy w s \<Longrightarrow> Popen_result w command = Inl e \<Longrightarrow>
   start_process_and_stream w command stdin_data welcome_msg end_file s =
     (s\<lparr>current_process := None,
        trace := trace s @ [LockAcquire, OccupancyTest (current_process s), Emit console_clear]
          @ map Emit (welcome_events welcome_msg)
          @ [Popen command, Emit (console_output (spawn_failure_text e)), SetCurrent None,
             LockRelease]\<rparr>, None)"
  by (simp add: start_process_and_stream_def Let_def act_def emit_def set_current_def busy_def
      welcome_events_def)

lemma start_spawned:
  "\<not> busy w s \<Longrightarrow> Popen_result w command = Inr p \<Longrightarrow>
   start_process_and_stream w command stdin_data welcome_msg end_file s =
     (s\<lparr>current_process := Some p,
        trace := trace s @ [LockAcquire, OccupancyTest (current_process s), Emit console_clear]
          @ map Emit (welcome_events welcome_msg)
          @ [Popen command, SetCurrent (Some p), LockRelease]\<rparr>,
      Some (Some p, stdin_data, end_file))"
  by (simp add: start_process_and_stream_def Let_def act_def emit_def set_current_def busy_def
      welcome_events_def)

lemma stream_output_released:
  "current_process (snd (stream_output w proc stdin end_file s)) = None"
  by (simp add: stream_output_def split: prod.splits)

lemma stream_output_trace:
  "trace (snd (stream_output w proc stdin end_file s)) =
     trace (snd (stream_output_body w proc stdin end_file s))
       @ [LockAcquire, SetCurrent None, LockRelease]"
  by (simp add: stream_output_def split: prod.splits)

lemma trace_write_stdin:
  "trace (write_stdin p d s) = trace s @
     (case stdin_write p of
        Some e \<Rightarrow> [StdinWrite d, Emit (console_output (stdin_error_text e))]
      | None \<Rightarrow>
          (case stdin_close p of
             Some e \<Rightarrow> [StdinWrite d, StdinClose, Emit (console_output (stdin_error_text e))]
           | None \<Rightarrow> [StdinWrite d, StdinClose]))"
  by (simp add: write_stdin_def Let_def split: option.splits)

lemma releases_drain_trace [simp]: "releases (drain_trace pipe) = 0"
proof -
  have "releases (concat (map (\<lambda>c. [StdoutRead, Emit (console_output (decode_utf8_replace c))]) cs)) = 0" for cs
    by (induction cs) simp_all
  then show ?thesis by (simp add: drain_trace_def)
qed

lemma body_no_release:
  "releases (trace (snd (stream_output_body w proc stdin end_file s))) = releases (trace s)"
  by (simp add: stream_output_body_def wait_and_report_def announce_end_file_def Let_def
      drain_eq trace_write_stdin split: option.splits sum.splits prod.splits)

lemma chunks_read_Nil [simp]: "chunks_read [] = []"
  by (subst chunks_read.simps) simp

lemma chunks_read_Inl [simp]: "chunks_read (Inl e # rest) = []"
  by (subst chunks_read.simps) simp

lemma chunks_read_Inr:
  "chunks_read (Inr b # rest) =
     (if b = [] then []
      else take 4096 b # chunks_read (if drop 4096 b = [] then rest else Inr (drop 4096 b) # rest))"
  by (subst chunks_read.simps) simp

lemma read_failure_Nil [simp]: "read_failure [] = None"
  by (subst read_failure.simps) simp

lemma read_failure_Inl [simp]: "read_failure (Inl e # rest) = Some e"
  by (subst read_failure.simps) simp

lemma read_failure_Inr:
  "read_failure (Inr b # rest) =
     (if b = [] then None
      else read_failure (if drop 4096 b = [] then rest else Inr (drop 4096 b) # rest))"
  by (subst read_failure.simps) simp

lemma emitted_drain_trace [simp]:
  "emitted (drain_trace pipe) = map (\<lambda>c. console_output (decode_utf8_replace c)) (chunks_read pipe)"
proof -
  have "emitted (concat (map (\<lambda>c. [StdoutRead, Emit (console_output (decode_utf8_replace c))]) cs))
          = map (\<lambda>c. console_output (decode_utf8_replace c)) cs" for cs
    by (induction cs) simp_all
  then show ?thesis by (simp add: drain_trace_def)
qed

lemma scheduled_drain_trace [simp]: "scheduled (drain_trace pipe) = []"
proof -
  have "scheduled (concat (map (\<lambda>c. [StdoutRead, Emit (console_output (decode_utf8_replace c))]) cs)) = []" for cs
    by (induction cs) simp_all
  then show ?thesis by (simp add: drain_trace_def)
qed

lemma emitted_map_Emit [simp]: "emitted (map Emit es) = es"
  by (induction es) simp_all

lemma scheduled_map_Emit [simp]: "scheduled (map Emit es) = []"
  by (induction es) simp_all

lemma write_stdin_eq:
  "write_stdin p d s = s\<lparr>trace := trace s @ stdin_trace p (Some d)\<rparr>"
  by (simp add: write_stdin_def stdin_trace_def Let_def act_def emit_def split: option.splits)

lemma announce_end_file_eq:
  "snd (announce_end_file w end_file s) = s\<lparr>trace := trace s @ end_file_trace w end_file\<rparr>"
  by (simp add: announce_end_file_def end_file_trace_def Let_def act_def emit_def
      delayed_remove_def split: option.splits)

lemma stream_output_body_eq:
  "snd (stream_output_body w (Some p) stdin end_file s) =
     s\<lparr>trace := trace s @ body_trace w p stdin end_file\<rparr>"
proof -
  have w: "snd (wait_and_report w p end_file s') = s'\<lparr>trace := trace s' @ wait_trace w p end_file\<rparr>" for s'
    by (cases "wait_result p")
       (simp_all add: wait_and_report_def wait_trace_def Let_def announce_end_file_eq act_def emit_def)
  show ?thesis
    by (cases stdin; cases "read_failure (stdout_bursts p)")
       (simp_all add: stream_output_body_def body_trace_def drain_eq w write_stdin_eq
          stdin_trace_def Let_def)
qed

lemma stream_output_eq:
  "snd (stream_output w (Some p) stdin end_file s) =
     s\<lparr>current_process := None,
        trace := trace s @ body_trace w p stdin end_file
          @ [LockAcquire, SetCurrent None, LockRelease]\<rparr>"
  using stream_output_body_eq [of w p stdin end_file s]
  by (cases "stream_output_body w (Some p) stdin end_file s")
     (simp add: stream_output_def act_def set_current_def)

lemma run_job_eq:
  assumes "\<not> busy w s" and "Popen_result w command = Inr p"
  shows "run_job w command stdin_data welcome_msg end_file s =
           s\<lparr>current_process := None,
              trace := trace s @ [LockAcquire, OccupancyTest (current_process s), Emit console_clear]
                @ map Emit (welcome_events welcome_msg)
                @ [Popen command, SetCurrent (Some p), LockRelease]
                @ body_trace w p stdin_data end_file
                @ [LockAcquire, SetCurrent None, LockRelease]\<rparr>"
  using assms by (simp add: run_job_def start_spawned stream_output_eq)


lemma emitted_stdin_trace_ok:
  "stdin = None \<or> (stdin_write p = None \<and> stdin_close p = None) \<Longrightarrow> emitted (stdin_trace p stdin) = []"
  by (auto simp: stdin_trace_def split: option.splits)

lemma emitted_stdin_trace_outputs: "\<exists>ts. emitted (stdin_trace p stdin) = map console_output ts"
proof (cases stdin)
  case None
  then show ?thesis by (simp add: stdin_trace_def)
next
  case (Some d)
  show ?thesis
  proof (cases "stdin_write p")
    case None
    with Some show ?thesis
      by (cases "stdin_close p")
         (simp_all add: stdin_trace_def exI [of _ "[stdin_error_text e]" for e])
  next
    case (Some e)
    with \<open>stdin = Some d\<close> show ?thesis
      by (simp add: stdin_trace_def exI [of _ "[stdin_error_text e]"])
  qed
qed

lemma emitted_end_file_trace:
  "emitted (end_file_trace w end_file) =
     (if truthy end_file \<and> path_exists w (the end_file)
      then (case TARGET_URL w of None \<Rightarrow> [] | Some u \<Rightarrow> [open_url (u @ the end_file)]) else [])"
  by (simp add: end_file_trace_def split: option.splits)

lemma scheduled_end_file_trace:
  "scheduled (end_file_trace w end_file) =
     (if truthy end_file \<and> path_exists w (the end_file)
      then (case TARGET_URL w of None \<Rightarrow> [] | Some u \<Rightarrow> [(the end_file, 30)]) else [])"
  by (simp add: end_file_trace_def split: option.splits)

lemma scheduled_stdin_trace [simp]: "scheduled (stdin_trace p stdin) = []"
  by (simp add: stdin_trace_def split: option.splits)

lemma chunks_read_echo: "chunks_read (stdout_bursts echo_proc) = [''hi\<newline>'']"
  by (simp add: echo_proc_def chunks_read_Inr)

lemma read_failure_echo: "read_failure (stdout_bursts echo_proc) = None"
  by (simp add: echo_proc_def read_failure_Inr)

lemma locators_append [simp]: "locators (xs @ ys) = locators xs @ locators ys"
  by (induction xs rule: locators.induct) simp_all

lemma locators_outputs [simp]: "locators (map (\<lambda>c. console_output (g c)) cs) = []"
  by (induction cs) simp_all

lemma locators_welcome_events [simp]: "locators (welcome_events m) = []"
  by (simp add: welcome_events_def)

lemma locators_stdin_trace [simp]: "locators (emitted (stdin_trace p stdin)) = []"
  by (simp add: stdin_trace_def split: option.splits)

lemma fst_stream_output_ok:
  assumes "read_failure (stdout_bursts p) = None" and "wait_result p = Inr retcode"
    and "TARGET_URL w = Some u \<or> \<not> (truthy end_file \<and> path_exists w (the end_file))"
  shows "fst (stream_output w (Some p) stdin end_file s) = None"
proof -
  have "fst (stream_output_body w (Some p) stdin end_file s) = None"
    using assms
    by (cases stdin)
       (auto simp: stream_output_body_def drain_eq wait_and_report_def announce_end_file_def
          Let_def)
  then show ?thesis
    by (cases "stream_output_body w (Some p) stdin end_file s") (simp add: stream_output_def)
qed

lemma busy_TARGET_URL [simp]: "busy (w\<lparr>TARGET_URL := t\<rparr>) s = busy w s"
  by (simp add: busy_def split: option.splits)

lemma end_file_trace_TARGET_URL:
  assumes "TARGET_URL w = Some u"
  shows "map erase_locator (emitted (end_file_trace (w\<lparr>TARGET_URL := Some u'\<rparr>) end_file))
           = map erase_locator (emitted (end_file_trace w end_file))"
    and "scheduled (end_file_trace (w\<lparr>TARGET_URL := Some u'\<rparr>) end_file)
           = scheduled (end_file_trace w end_file)"
  using assms by (simp_all add: end_file_trace_def)

lemma body_trace_TARGET_URL:
  assumes "TARGET_URL w = Some u"
  shows "map erase_locator (emitted (body_trace (w\<lparr>TARGET_URL := Some u'\<rparr>) p stdin end_file))
           = map erase_locator (emitted (body_trace w p stdin end_file))
       \<and> scheduled (body_trace (w\<lparr>TARGET_URL := Some u'\<rparr>) p stdin end_file)
           = scheduled (body_trace w p stdin end_file)"
proof (cases "read_failure (stdout_bursts p)")
  case None
  then show ?thesis
    by (cases "wait_result p")
       (simp_all add: body_trace_def wait_trace_def end_file_trace_TARGET_URL [OF assms])
next
  case (Some e)
  then show ?thesis
    by (simp add: body_trace_def)
qed

lemma scheduled_body_trace:
  "scheduled (body_trace w p stdin end_file) = []
   \<or> scheduled (body_trace w p stdin end_file) = [(the end_file, 30)]"
proof (cases "read_failure (stdout_bursts p)")
  case None
  then show ?thesis
    by (cases "wait_result p"; cases "TARGET_URL w")
       (simp_all add: body_trace_def wait_trace_def scheduled_end_file_trace)
next
  case (Some e)
  then show ?thesis
    by (simp add: body_trace_def)
qed

lemma commands_append [simp]: "commands (xs @ ys) = commands xs @ commands ys"
  by (induction xs rule: commands.induct) simp_all

lemma commands_map_Emit [simp]: "commands (map Emit es) = []"
  by (induction es) simp_all

lemma commands_drain_trace [simp]: "commands (drain_trace pipe) = []"
proof -
  have "commands (concat (map (\<lambda>c. [StdoutRead, Emit (console_output (decode_utf8_replace c))]) cs)) = []" for cs
    by (induction cs) simp_all
  then show ?thesis by (simp add: drain_trace_def)
qed

lemma commands_body_trace [simp]: "commands (body_trace w p stdin end_file) = []"
  by (simp add: body_trace_def wait_trace_def end_file_trace_def stdin_trace_def
      split: option.splits sum.splits)

lemma end_file_trace_None [simp]: "end_file_trace w None = []"
  by (simp add: end_file_trace_def)

lemma body_trace_None_TARGET_URL:
  "body_trace (w\<lparr>TARGET_URL := t\<rparr>) p stdin None = body_trace w p stdin None"
  by (simp add: body_trace_def wait_trace_def split: option.splits sum.splits)

lemma emitted_body_trace_end_file:
  "emitted (body_trace w p stdin end_file)
     = emitted (body_trace w p stdin None) @ end_file_events w p end_file"
  by (simp add: body_trace_def wait_trace_def end_file_events_def split: option.splits sum.splits)

lemma scheduled_body_trace_end_file:
  "scheduled (body_trace w p stdin end_file)
     = (if end_file_events w p end_file = [] then [] else [(the end_file, 30)])"
  by (simp add: body_trace_def wait_trace_def end_file_events_def emitted_end_file_trace
      scheduled_end_file_trace split: option.splits sum.splits)

lemma end_file_events_cases:
  "end_file_events w p end_file = []
   \<or> (\<exists>u. TARGET_URL w = Some u \<and> end_file_events w p end_file = [open_url (u @ the end_file)])"
  by (simp add: end_file_events_def emitted_end_file_trace split: option.splits sum.splits)

lemma end_file_events_reached:
  assumes "read_failure (stdout_bursts p) = None" and "wait_result p = Inr retcode"
    and "truthy end_file" and "path_exists w (the end_file)" and "TARGET_URL w = Some u"
  shows "end_file_events w p end_file = [open_url (u @ the end_file)]"
  using assms by (simp add: end_file_events_def emitted_end_file_trace)

lemma run_job_None_TARGET_URL:
  "run_job (w\<lparr>TARGET_URL := t\<rparr>) command stdin_data welcome_msg None s
     = run_job w command stdin_data welcome_msg None s"
proof (cases "busy w s")
  case True
  then show ?thesis by (simp add: run_job_def start_busy)
next
  case False
  show ?thesis
  proof (cases "Popen_result w command")
    case (Inl e)
    with False show ?thesis
      by (simp add: run_job_def start_spawn_failed)
  next
    case (Inr p)
    with False show ?thesis
      by (simp add: run_job_eq body_trace_None_TARGET_URL)
  qed
qed

lemma run_job_busy:
  "busy w s \<Longrightarrow> run_job w command stdin_data welcome_msg end_file s
     = s\<lparr>trace := trace s @ [LockAcquire, OccupancyTest (current_process s),
          Emit (console_output busy_msg), LockRelease]\<rparr>"
  by (simp add: run_job_def start_busy)

lemma run_job_spawn_failed:
  "\<not> busy w s \<Longrightarrow> Popen_result w command = Inl e \<Longrightarrow>
   run_job w command stdin_data welcome_msg end_file s
     = s\<lparr>current_process := None,
         trace := trace s @ [LockAcquire, OccupancyTest (current_process s), Emit console_clear]
           @ map Emit (welcome_events welcome_msg)
           @ [Popen command, Emit (console_output (spawn_failure_text e)), SetCurrent None,
              LockRelease]\<rparr>"
  by (simp add: run_job_def start_spawn_failed)


subsection \<open>The decoder, by the class of the first byte\<close>

lemma byte_classes: "single_byte x \<or> invalid_start x \<or> lead2 x \<or> lead3 x \<or> lead4 x"
  by (auto simp: single_byte_def invalid_start_def lead2_def lead3_def lead4_def)

lemma continuation_invalid_start: "is_continuation c \<Longrightarrow> invalid_start c"
  by (simp add: is_continuation_def invalid_start_def)

lemma second_ok3_continuation: "second_ok3 ch c \<Longrightarrow> is_continuation c"
  by (simp add: second_ok3_def)

lemma second_ok4_continuation: "second_ok4 ch c \<Longrightarrow> is_continuation c"
  by (simp add: second_ok4_def)

lemma decode_single: "single_byte x \<Longrightarrow> decode_utf8_replace (x # bs) = of_char x # decode_utf8_replace bs"
  by (simp add: single_byte_def)

lemma decode_invalid_start:
  "invalid_start x \<Longrightarrow> decode_utf8_replace (x # bs) = U_FFFD # decode_utf8_replace bs"
  by (auto simp: invalid_start_def Let_def)

lemma decode_continuation:
  "is_continuation c \<Longrightarrow> decode_utf8_replace (c # bs) = U_FFFD # decode_utf8_replace bs"
  by (simp add: decode_invalid_start continuation_invalid_start del: decode_utf8_replace.simps)

lemma decode_lead2_end: "lead2 x \<Longrightarrow> decode_utf8_replace [x] = [U_FFFD]"
  by (simp add: lead2_def Let_def)

lemma decode_lead2:
  "lead2 x \<Longrightarrow> decode_utf8_replace (x # c # r) =
     (if is_continuation c then ((of_char x - 192) * 64 + low6 c) # decode_utf8_replace r
      else U_FFFD # decode_utf8_replace (c # r))"
  by (simp add: lead2_def Let_def del: decode_utf8_replace.simps
      add: decode_utf8_replace.simps(2) [of x "c # r"])

lemma decode_lead3_end: "lead3 x \<Longrightarrow> decode_utf8_replace [x] = [U_FFFD]"
  by (simp add: lead3_def Let_def)

lemma decode_lead3_bad:
  "lead3 x \<Longrightarrow> \<not> second_ok3 (of_char x) c \<Longrightarrow>
   decode_utf8_replace (x # c # r) = U_FFFD # decode_utf8_replace (c # r)"
  by (simp add: lead3_def Let_def del: decode_utf8_replace.simps
      add: decode_utf8_replace.simps(2) [of x "c # r"])

lemma decode_lead3_end2:
  "lead3 x \<Longrightarrow> second_ok3 (of_char x) c \<Longrightarrow> decode_utf8_replace [x, c] = [U_FFFD]"
  by (simp add: lead3_def Let_def del: decode_utf8_replace.simps
      add: decode_utf8_replace.simps(2) [of x "[c]"])

lemma decode_lead3:
  "lead3 x \<Longrightarrow> second_ok3 (of_char x) c \<Longrightarrow>
   decode_utf8_replace (x # c # c3 # r) =
     (if is_continuation c3
      then ((of_char x - 224) * 4096 + low6 c * 64 + low6 c3) # decode_utf8_replace r
      else U_FFFD # decode_utf8_replace (c3 # r))"
  by (simp add: lead3_def Let_def del: decode_utf8_replace.simps
      add: decode_utf8_replace.simps(2) [of x "c # c3 # r"])

lemma decode_lead4_end: "lead4 x \<Longrightarrow> decode_utf8_replace [x] = [U_FFFD]"
  by (simp add: lead4_def Let_def)

lemma decode_lead4_bad:
  "lead4 x \<Longrightarrow> \<not> second_ok4 (of_char x) c \<Longrightarrow>
   decode_utf8_replace (x # c # r) = U_FFFD # decode_utf8_replace (c # r)"
  by (simp add: lead4_def Let_def del: decode_utf8_replace.simps
      add: decode_utf8_replace.simps(2) [of x "c # r"])

lemma decode_lead4_end2:
  "lead4 x \<Longrightarrow> second_ok4 (of_char x) c \<Longrightarrow> decode_utf8_replace [x, c] = [U_FFFD]"
  by (simp add: lead4_def Let_def del: decode_utf8_replace.simps
      add: decode_utf8_replace.simps(2) [of x "[c]"])

lemma decode_lead4_bad3:
  "lead4 x \<Longrightarrow> second_ok4 (of_char x) c \<Longrightarrow> \<not> is_continuation c3 \<Longrightarrow>
   decode_utf8_replace (x # c # c3 # r) = U_FFFD # decode_utf8_replace (c3 # r)"
  by (simp add: lead4_def Let_def del: decode_utf8_replace.simps
      add: decode_utf8_replace.simps(2) [of x "c # c3 # r"])

lemma decode_lead4_end3:
  "lead4 x \<Longrightarrow> second_ok4 (of_char x) c \<Longrightarrow> is_continuation c3 \<Longrightarrow>
   decode_utf8_replace [x, c, c3] = [U_FFFD]"
  by (simp add: lead4_def Let_def del: decode_utf8_replace.simps
      add: decode_utf8_replace.simps(2) [of x "[c, c3]"])

lemma decode_lead4:
  "lead4 x \<Longrightarrow> second_ok4 (of_char x) c \<Longrightarrow> is_continuation c3 \<Longrightarrow>
   decode_utf8_replace (x # c # c3 # c4 # r) =
     (if is_continuation c4
      then ((of_char x - 240) * 262144 + low6 c * 4096 + low6 c3 * 64 + low6 c4)
             # decode_utf8_replace r
      else U_FFFD # decode_utf8_replace (c4 # r))"
  by (simp add: lead4_def Let_def del: decode_utf8_replace.simps
      add: decode_utf8_replace.simps(2) [of x "c # c3 # c4 # r"])

subsection \<open>Texts with replaced characters\<close>

lemma replaced_refl: "replaced k xs xs"
  by (induction xs) (auto intro: replaced.intros)

lemma replaced_mono: "replaced k xs ys \<Longrightarrow> k \<le> k' \<Longrightarrow> replaced k' xs ys"
proof (induction arbitrary: k' rule: replaced.induct)
  case (nil k)
  then show ?case by (simp add: replaced.nil)
next
  case (keep k xs ys x)
  then show ?case by (simp add: replaced.keep)
next
  case (subst k xs ys n x)
  then obtain j where "k' = Suc j" "k \<le> j"
    by (cases k') auto
  with subst show ?case by (auto intro: replaced.subst)
qed

lemma replaced_append_left: "replaced k xs ys \<Longrightarrow> replaced k (p @ xs) (p @ ys)"
  by (induction p) (auto intro: replaced.intros)

lemma replaced_Cons_left:
  assumes "replaced k (x # xs) z"
  shows "(\<exists>zs. z = x # zs \<and> replaced k xs zs)
       \<or> (\<exists>n zs j. z = replicate n U_FFFD @ zs \<and> 0 < n \<and> k = Suc j \<and> replaced j xs zs)"
  using assms by (cases rule: replaced.cases) auto

lemma replaced_markers:
  "replaced k (replicate n U_FFFD @ ys) z \<Longrightarrow>
   \<exists>m zs. z = replicate m U_FFFD @ zs \<and> n \<le> m \<and> replaced k ys zs"
proof (induction n arbitrary: z)
  case 0
  then show ?case by (intro exI [of _ 0]) simp
next
  case (Suc n)
  then have "replaced k (U_FFFD # (replicate n U_FFFD @ ys)) z" by simp
  then consider (k) zs where "z = U_FFFD # zs" "replaced k (replicate n U_FFFD @ ys) zs"
    | (s) i zs j where "z = replicate i U_FFFD @ zs" "0 < i" "k = Suc j"
        "replaced j (replicate n U_FFFD @ ys) zs"
    using replaced_Cons_left by blast
  then show ?case
  proof cases
    case k
    from Suc.IH [OF k(2)] obtain m zs' where
      "zs = replicate m U_FFFD @ zs'" "n \<le> m" "replaced k ys zs'" by blast
    with k(1) show ?thesis
      by (intro exI [of _ "Suc m"] exI [of _ zs']) simp
  next
    case s
    from s(3,4) have "replaced k (replicate n U_FFFD @ ys) zs"
      by (auto intro: replaced_mono)
    from Suc.IH [OF this] obtain m zs' where
      "zs = replicate m U_FFFD @ zs'" "n \<le> m" "replaced k ys zs'" by blast
    with s(1,2) show ?thesis
      by (intro exI [of _ "i + m"] exI [of _ zs']) (simp add: replicate_add)
  qed
qed

lemma replaced_trans: "replaced j xs ys \<Longrightarrow> replaced k ys zs \<Longrightarrow> replaced (j + k) xs zs"
proof (induction arbitrary: zs k rule: replaced.induct)
  case (nil j)
  then show ?case by (auto elim: replaced.cases intro: replaced.nil)
next
  case (keep j xs ys x)
  from replaced_Cons_left [OF keep.prems] show ?case
  proof (elim disjE exE conjE)
    fix zs' assume "zs = x # zs'" "replaced k ys zs'"
    with keep.IH [of k zs'] show ?thesis by (simp add: replaced.keep)
  next
    fix n zs' i assume "zs = replicate n U_FFFD @ zs'" "0 < n" "k = Suc i" "replaced i ys zs'"
    with keep.IH [of i zs'] show ?thesis by (simp add: replaced.subst)
  qed
next
  case (subst j xs ys n x)
  from replaced_markers [OF subst.prems] obtain m zs' where
    "zs = replicate m U_FFFD @ zs'" "n \<le> m" "replaced k ys zs'" by blast
  with subst.IH [of k zs'] subst.hyps(2) show ?case
    by (auto intro: replaced.subst)
qed

lemma replaced_substitute:
  "replaced k xs ys \<Longrightarrow>
   \<exists>ns. length ns = length xs \<and> ys = substitute xs ns \<and> length (filter (\<lambda>n. 0 < n) ns) \<le> k"
proof (induction rule: replaced.induct)
  case (nil k)
  then show ?case by simp
next
  case (keep k xs ys x)
  then obtain ns where "length ns = length xs" "ys = substitute xs ns"
    "length (filter (\<lambda>n. 0 < n) ns) \<le> k" by blast
  then show ?case by (intro exI [of _ "0 # ns"]) simp
next
  case (subst k xs ys n x)
  then obtain ns where "length ns = length xs" "ys = substitute xs ns"
    "length (filter (\<lambda>n. 0 < n) ns) \<le> k" by blast
  with subst.hyps(2) show ?case by (intro exI [of _ "n # ns"]) simp
qed

lemma replaced_unmarked: "replaced k xs ys \<Longrightarrow> U_FFFD \<notin> set ys \<Longrightarrow> ys = xs"
  by (induction rule: replaced.induct) auto

lemma head_replaced_refl: "head_replaced (d # ds) (d # ds)"
  by (simp add: head_replaced_def)

lemma head_replaced_two: "head_replaced (d # ds) (U_FFFD # U_FFFD # ds)"
  unfolding head_replaced_def
  by (intro exI [of _ d] exI [of _ ds] conjI refl disjI2 exI [of _ 2]) (simp_all add: numeral_2_eq_2)

lemma marker_doubled:
  assumes "head_replaced xs (U_FFFD # ys)"
  shows "head_replaced xs (U_FFFD # U_FFFD # ys)"
proof -
  from assms obtain d ds where xs: "xs = d # ds"
    and c: "U_FFFD # ys = d # ds \<or> (\<exists>n. 0 < n \<and> U_FFFD # ys = replicate n U_FFFD @ ds)"
    unfolding head_replaced_def by blast
  from c show ?thesis
  proof
    assume "U_FFFD # ys = d # ds"
    with xs show ?thesis by (simp add: head_replaced_two)
  next
    assume "\<exists>n. 0 < n \<and> U_FFFD # ys = replicate n U_FFFD @ ds"
    then obtain n where n: "0 < n" "U_FFFD # ys = replicate n U_FFFD @ ds" by blast
    then have "U_FFFD # U_FFFD # ys = replicate (Suc n) U_FFFD @ ds" by simp
    with xs show ?thesis
      unfolding head_replaced_def by blast
  qed
qed

lemma head_replaced_replaced: "head_replaced xs ys \<Longrightarrow> replaced 1 xs ys"
  unfolding head_replaced_def
  using replaced.subst [OF replaced_refl [of 0]] replaced_refl [of 1]
  by auto

subsection \<open>Decoding across a chunk boundary\<close>

lemma split_lead2:
  assumes "lead2 x"
  shows "head_replaced (decode_utf8_replace (x # b)) (U_FFFD # decode_utf8_replace b)"
proof (cases b)
  case Nil
  with assms show ?thesis
    by (simp add: decode_lead2_end head_replaced_refl del: decode_utf8_replace.simps(2))
next
  case (Cons c r)
  with assms show ?thesis
    by (cases "is_continuation c")
       (simp_all add: decode_lead2 decode_continuation head_replaced_two head_replaced_refl
          del: decode_utf8_replace.simps)
qed

lemma split_lead3_2:
  assumes "lead3 x" and "second_ok3 (of_char x) c"
  shows "head_replaced (decode_utf8_replace (x # c # b)) (U_FFFD # decode_utf8_replace b)"
proof (cases b)
  case Nil
  with assms show ?thesis
    by (simp add: decode_lead3_end2 head_replaced_refl del: decode_utf8_replace.simps(2))
next
  case (Cons c3 r)
  with assms show ?thesis
    by (cases "is_continuation c3")
       (simp_all add: decode_lead3 decode_continuation head_replaced_two head_replaced_refl
          del: decode_utf8_replace.simps)
qed

lemma split_lead3_1:
  assumes "lead3 x"
  shows "head_replaced (decode_utf8_replace (x # b)) (U_FFFD # decode_utf8_replace b)"
proof (cases b)
  case Nil
  with assms show ?thesis
    by (simp add: decode_lead3_end head_replaced_refl del: decode_utf8_replace.simps(2))
next
  case (Cons c r)
  show ?thesis
  proof (cases "second_ok3 (of_char x) c")
    case True
    with assms have "head_replaced (decode_utf8_replace (x # c # r)) (U_FFFD # decode_utf8_replace r)"
      by (rule split_lead3_2)
    then have "head_replaced (decode_utf8_replace (x # c # r)) (U_FFFD # U_FFFD # decode_utf8_replace r)"
      by (rule marker_doubled)
    with True Cons show ?thesis
      by (simp add: decode_continuation second_ok3_continuation del: decode_utf8_replace.simps)
  next
    case False
    with assms Cons show ?thesis
      by (simp add: decode_lead3_bad head_replaced_refl del: decode_utf8_replace.simps)
  qed
qed

lemma split_lead4_3:
  assumes "lead4 x" and "second_ok4 (of_char x) c" and "is_continuation c3"
  shows "head_replaced (decode_utf8_replace (x # c # c3 # b)) (U_FFFD # decode_utf8_replace b)"
proof (cases b)
  case Nil
  with assms show ?thesis
    by (simp add: decode_lead4_end3 head_replaced_refl del: decode_utf8_replace.simps(2))
next
  case (Cons c4 r)
  with assms show ?thesis
    by (cases "is_continuation c4")
       (simp_all add: decode_lead4 decode_continuation head_replaced_two head_replaced_refl
          del: decode_utf8_replace.simps)
qed

lemma split_lead4_2:
  assumes "lead4 x" and "second_ok4 (of_char x) c"
  shows "head_replaced (decode_utf8_replace (x # c # b)) (U_FFFD # decode_utf8_replace b)"
proof (cases b)
  case Nil
  with assms show ?thesis
    by (simp add: decode_lead4_end2 head_replaced_refl del: decode_utf8_replace.simps(2))
next
  case (Cons c3 r)
  show ?thesis
  proof (cases "is_continuation c3")
    case True
    with assms have "head_replaced (decode_utf8_replace (x # c # c3 # r)) (U_FFFD # decode_utf8_replace r)"
      by (intro split_lead4_3)
    then have "head_replaced (decode_utf8_replace (x # c # c3 # r)) (U_FFFD # U_FFFD # decode_utf8_replace r)"
      by (rule marker_doubled)
    with True Cons show ?thesis
      by (simp add: decode_continuation del: decode_utf8_replace.simps)
  next
    case False
    with assms Cons show ?thesis
      by (simp add: decode_lead4_bad3 head_replaced_refl del: decode_utf8_replace.simps)
  qed
qed

lemma split_lead4_1:
  assumes "lead4 x"
  shows "head_replaced (decode_utf8_replace (x # b)) (U_FFFD # decode_utf8_replace b)"
proof (cases b)
  case Nil
  with assms show ?thesis
    by (simp add: decode_lead4_end head_replaced_refl del: decode_utf8_replace.simps(2))
next
  case (Cons c r)
  show ?thesis
  proof (cases "second_ok4 (of_char x) c")
    case True
    with assms have "head_replaced (decode_utf8_replace (x # c # r)) (U_FFFD # decode_utf8_replace r)"
      by (rule split_lead4_2)
    then have "head_replaced (decode_utf8_replace (x # c # r)) (U_FFFD # U_FFFD # decode_utf8_replace r)"
      by (rule marker_doubled)
    with True Cons show ?thesis
      by (simp add: decode_continuation second_ok4_continuation del: decode_utf8_replace.simps)
  next
    case False
    with assms Cons show ?thesis
      by (simp add: decode_lead4_bad head_replaced_refl del: decode_utf8_replace.simps)
  qed
qed

lemma decode_append:
  "replaced 1 (decode_utf8_replace (a @ b)) (decode_utf8_replace a @ decode_utf8_replace b)"
proof (induction a arbitrary: b rule: length_induct)
  case (1 a)
  then have IH: "length ys < length a \<Longrightarrow>
      replaced 1 (decode_utf8_replace (ys @ b)) (decode_utf8_replace ys @ decode_utf8_replace b)" for ys b
    by blast
  show ?case
  proof (cases a)
    case Nil
    then show ?thesis by (simp add: replaced_refl)
  next
    case a: (Cons x a')
    consider (single) "single_byte x" | (invalid) "invalid_start x"
      | (two) "lead2 x" | (three) "lead3 x" | (four) "lead4 x"
      using byte_classes by blast
    then show ?thesis
    proof cases
      case single
      with a IH [of a' b] show ?thesis
        by (simp add: decode_single replaced.keep del: decode_utf8_replace.simps)
    next
      case invalid
      with a IH [of a' b] show ?thesis
        by (simp add: decode_invalid_start replaced.keep del: decode_utf8_replace.simps)
    next
      case two
      show ?thesis
      proof (cases a')
        case Nil
        with a two head_replaced_replaced [OF split_lead2 [of x b]] show ?thesis
          by (simp add: decode_lead2_end del: decode_utf8_replace.simps)
      next
        case (Cons c r)
        with a two IH [of r b] IH [of "c # r" b] show ?thesis
          by (simp add: decode_lead2 replaced.keep del: decode_utf8_replace.simps)
      qed
    next
      case three
      show ?thesis
      proof (cases a')
        case Nil
        with a three head_replaced_replaced [OF split_lead3_1 [of x b]] show ?thesis
          by (simp add: decode_lead3_end del: decode_utf8_replace.simps)
      next
        case a': (Cons c r)
        show ?thesis
        proof (cases "second_ok3 (of_char x) c")
          case False
          with a a' three IH [of "c # r" b] show ?thesis
            by (simp add: decode_lead3_bad replaced.keep del: decode_utf8_replace.simps)
        next
          case ok: True
          show ?thesis
          proof (cases r)
            case Nil
            with a a' three ok head_replaced_replaced [OF split_lead3_2 [of x c b]] show ?thesis
              by (simp add: decode_lead3_end2 del: decode_utf8_replace.simps)
          next
            case (Cons c3 r3)
            with a a' three ok IH [of r3 b] IH [of "c3 # r3" b] show ?thesis
              by (simp add: decode_lead3 replaced.keep del: decode_utf8_replace.simps)
          qed
        qed
      qed
    next
      case four
      show ?thesis
      proof (cases a')
        case Nil
        with a four head_replaced_replaced [OF split_lead4_1 [of x b]] show ?thesis
          by (simp add: decode_lead4_end del: decode_utf8_replace.simps)
      next
        case a': (Cons c r)
        show ?thesis
        proof (cases "second_ok4 (of_char x) c")
          case False
          with a a' four IH [of "c # r" b] show ?thesis
            by (simp add: decode_lead4_bad replaced.keep del: decode_utf8_replace.simps)
        next
          case ok: True
          show ?thesis
          proof (cases r)
            case Nil
            with a a' four ok head_replaced_replaced [OF split_lead4_2 [of x c b]] show ?thesis
              by (simp add: decode_lead4_end2 del: decode_utf8_replace.simps)
          next
            case r: (Cons c3 r3)
            show ?thesis
            proof (cases "is_continuation c3")
              case False
              with a a' r four ok IH [of "c3 # r3" b] show ?thesis
                by (simp add: decode_lead4_bad3 replaced.keep del: decode_utf8_replace.simps)
            next
              case c3: True
              show ?thesis
              proof (cases r3)
                case Nil
                with a a' r four ok c3 head_replaced_replaced [OF split_lead4_3 [of x c c3 b]] show ?thesis
                  by (simp add: decode_lead4_end3 del: decode_utf8_replace.simps)
              next
                case (Cons c4 r4)
                with a a' r four ok c3 IH [of r4 b] IH [of "c4 # r4" b] show ?thesis
                  by (simp add: decode_lead4 replaced.keep del: decode_utf8_replace.simps)
              qed
            qed
          qed
        qed
      qed
    qed
  qed
qed

lemma decode_chunks:
  "replaced (length cs - 1) (decode_utf8_replace (concat cs)) (concat (map decode_utf8_replace cs))"
proof (induction cs)
  case Nil
  then show ?case by (simp add: replaced.nil)
next
  case (Cons c cs)
  show ?case
  proof (cases cs)
    case Nil
    then show ?thesis by (simp add: replaced_refl)
  next
    case (Cons c' cs')
    have "replaced 1 (decode_utf8_replace (c @ concat cs))
            (decode_utf8_replace c @ decode_utf8_replace (concat cs))"
      by (rule decode_append)
    moreover have "replaced (length cs - 1) (decode_utf8_replace c @ decode_utf8_replace (concat cs))
            (decode_utf8_replace c @ concat (map decode_utf8_replace cs))"
      using Cons.IH by (rule replaced_append_left)
    ultimately have "replaced (1 + (length cs - 1)) (decode_utf8_replace (c @ concat cs))
            (decode_utf8_replace c @ concat (map decode_utf8_replace cs))"
      by (rule replaced_trans)
    with Cons show ?thesis by simp
  qed
qed

subsection \<open>The chunks of the drain loop\<close>

lemma chunks_read_bounded:
  "chunk \<in> set (chunks_read pipe) \<Longrightarrow> chunk \<noteq> [] \<and> length chunk \<le> 4096"
proof (induction pipe rule: chunks_read.induct)
  case (1 pipe)
  show ?case
  proof (cases pipe)
    case Nil
    with "1.prems" show ?thesis by simp
  next
    case (Cons x rest)
    show ?thesis
    proof (cases x)
      case (Inl e)
      with Cons "1.prems" show ?thesis by simp
    next
      case (Inr b)
      show ?thesis
      proof (cases "b = []")
        case True
        with Cons Inr "1.prems" show ?thesis by (simp add: chunks_read_Inr)
      next
        case False
        let ?pipe' = "if drop 4096 b = [] then rest else Inr (drop 4096 b) # rest"
        from False Cons Inr have r: "stdout_read 4096 pipe = (Inr (take 4096 b), ?pipe')"
          by simp
        from False have t: "take 4096 b \<noteq> []" by simp
        from "1.prems" False Cons Inr
        have "chunk = take 4096 b \<or> chunk \<in> set (chunks_read ?pipe')"
          by (simp add: chunks_read_Inr)
        then show ?thesis
        proof
          assume "chunk = take 4096 b"
          with t show ?thesis by simp
        next
          assume "chunk \<in> set (chunks_read ?pipe')"
          with "1.IH" [OF r [symmetric] refl t] show ?thesis by blast
        qed
      qed
    qed
  qed
qed

lemma concat_chunks_read: "concat (chunks_read pipe) = delivered pipe"
proof (induction pipe rule: chunks_read.induct)
  case (1 pipe)
  show ?case
  proof (cases pipe)
    case Nil
    then show ?thesis by simp
  next
    case (Cons x rest)
    show ?thesis
    proof (cases x)
      case (Inl e)
      with Cons show ?thesis by simp
    next
      case (Inr b)
      show ?thesis
      proof (cases "b = []")
        case True
        with Cons Inr show ?thesis by (simp add: chunks_read_Inr)
      next
        case False
        let ?pipe' = "if drop 4096 b = [] then rest else Inr (drop 4096 b) # rest"
        from False Cons Inr have r: "stdout_read 4096 pipe = (Inr (take 4096 b), ?pipe')"
          by simp
        from False have t: "take 4096 b \<noteq> []" by simp
        have d: "delivered ?pipe' = drop 4096 b @ delivered rest"
          by simp
        have "concat (chunks_read pipe) = take 4096 b @ concat (chunks_read ?pipe')"
          using False Cons Inr by (simp add: chunks_read_Inr)
        also have "\<dots> = take 4096 b @ delivered ?pipe'"
          using "1.IH" [OF r [symmetric] refl t] by simp
        also have "\<dots> = delivered pipe"
          using False Cons Inr by (simp only: d) simp
        finally show ?thesis .
      qed
    qed
  qed
qed

lemma delivered_all: "[] \<notin> set bs \<Longrightarrow> delivered (map Inr bs) = concat bs"
  by (induction bs) auto

section \<open>The claims\<close>

text \<open>
  C1. A job that passed the occupancy test, run to the end of its worker: whatever
  \<^verbatim>\<open>Popen\<close>, the write to stdin, the reads, \<^verbatim>\<open>wait\<close> and the end-file step do (return
  or raise), the slot is empty at the end, it was set to empty exactly once since the
  submission, that assignment and the release of the lock are the last two effects of
  the job, and any next submission on any host passes the occupancy test: it emits the
  clear, not the busy line.
\<close>

theorem slot_released_exactly_once:
  assumes "\<not> busy w s"
  shows "current_process (run_job w command stdin_data welcome_msg end_file s) = None
     \<and> releases (trace (run_job w command stdin_data welcome_msg end_file s))
         = Suc (releases (trace s))
     \<and> (\<exists>pre. trace (run_job w command stdin_data welcome_msg end_file s)
           = pre @ [SetCurrent None, LockRelease])
     \<and> \<not> busy w' (run_job w command stdin_data welcome_msg end_file s)
     \<and> (\<exists>rest. trace (fst (start_process_and_stream w' command' stdin_data' welcome_msg' end_file'
              (run_job w command stdin_data welcome_msg end_file s)))
           = trace (run_job w command stdin_data welcome_msg end_file s)
               @ LockAcquire # OccupancyTest None # Emit console_clear # rest)"
proof -
  let ?s' = "run_job w command stdin_data welcome_msg end_file s"
  have released: "current_process ?s' = None \<and> releases (trace ?s') = Suc (releases (trace s))
     \<and> (\<exists>pre. trace ?s' = pre @ [SetCurrent None, LockRelease])"
  proof (cases "Popen_result w command")
    case (Inl e)
    with assms show ?thesis
      by (simp add: run_job_def start_spawn_failed welcome_events_def)
  next
    case (Inr p)
    with assms show ?thesis
      by (simp add: run_job_def start_spawned stream_output_released stream_output_trace
          body_no_release welcome_events_def)
  qed
  then have free: "\<not> busy w' ?s'"
    by (simp add: busy_def)
  have "\<exists>rest. trace (fst (start_process_and_stream w' command' stdin_data' welcome_msg' end_file' ?s'))
           = trace ?s' @ LockAcquire # OccupancyTest None # Emit console_clear # rest"
  proof (cases "Popen_result w' command'")
    case (Inl e)
    with free released show ?thesis by (simp add: start_spawn_failed)
  next
    case (Inr p)
    with free released show ?thesis by (simp add: start_spawned)
  qed
  with released free show ?thesis by blast
qed

theorem slot_released_exactly_once_witness:
  "\<not> busy crashing_host idle
   \<and> current_process (run_job crashing_host print_command (Some ''doc'') None None idle) = None
   \<and> releases (trace (run_job crashing_host print_command (Some ''doc'') None None idle)) = 1
   \<and> \<not> busy crashing_host (run_job crashing_host print_command (Some ''doc'') None None idle)"
proof -
  have h: "\<not> busy crashing_host idle"
    by (simp add: busy_def idle_def)
  show ?thesis
    using slot_released_exactly_once [OF h, of print_command "Some ''doc''" None None crashing_host] h
    by (simp add: idle_def)
qed

text \<open>
  C2, as the source has it. The slot is one optional process handle. Every effect of
  \<^verbatim>\<open>start_process_and_stream\<close> lies in one critical section of the lock: the lock is
  acquired, the occupancy test then reads the slot, and the lock is released last, with
  no other acquisition, release or occupancy test in between. The slot is set to a
  process only inside that section, after the test, and only when the test found the
  slot empty or holding a process that has exited (\<^verbatim>\<open>poll()\<close> returned an exit code); the
  process it is set to is the one the slot holds when the lock is released. A submission
  that the test finds busy assigns nothing to the slot.
\<close>

theorem slot_set_under_lock_when_not_busy:
  "\<exists>mid. trace (fst (start_process_and_stream w command stdin_data welcome_msg end_file s))
            = trace s @ [LockAcquire, OccupancyTest (current_process s)] @ mid @ [LockRelease]
     \<and> LockAcquire \<notin> set mid \<and> LockRelease \<notin> set mid
     \<and> (\<forall>v. OccupancyTest v \<notin> set mid)
     \<and> (\<forall>p. SetCurrent (Some p) \<in> set mid \<longrightarrow>
           (current_process s = None \<or> (\<exists>q. current_process s = Some q \<and> poll w q \<noteq> None))
           \<and> current_process (fst (start_process_and_stream w command stdin_data welcome_msg end_file s)) = Some p)
     \<and> (busy w s \<longrightarrow>
           (\<forall>v. SetCurrent v \<notin> set mid)
           \<and> current_process (fst (start_process_and_stream w command stdin_data welcome_msg end_file s))
             = current_process s)"
proof (cases "busy w s")
  case True
  then show ?thesis by (simp add: start_busy)
next
  case False
  then have nb: "current_process s = None \<or> (\<exists>q. current_process s = Some q \<and> poll w q \<noteq> None)"
    by (auto simp: busy_def split: option.splits)
  show ?thesis
  proof (cases "Popen_result w command")
    case (Inl e)
    with False show ?thesis
      by (auto simp: start_spawn_failed welcome_events_def)
  next
    case (Inr p)
    with False nb show ?thesis
      by (auto simp: start_spawned welcome_events_def)
  qed
qed

theorem slot_set_under_lock_when_not_busy_witness:
  "\<exists>mid. trace first_accepted = trace idle @ [LockAcquire, OccupancyTest None] @ mid @ [LockRelease]
     \<and> LockAcquire \<notin> set mid \<and> LockRelease \<notin> set mid
     \<and> OccupancyTest None \<notin> set mid
     \<and> SetCurrent (Some lp_proc) \<in> set mid
     \<and> current_process idle = None
     \<and> current_process first_accepted = Some lp_proc"
proof -
  have a: "\<not> busy print_host idle"
    by (simp add: busy_def idle_def)
  have b: "Popen_result print_host print_command = Inr lp_proc"
    by (simp add: print_host_def)
  have n: "current_process idle = None"
    by (simp add: idle_def)
  obtain mid where
    t: "trace first_accepted
        = trace idle @ [LockAcquire, OccupancyTest (current_process idle)] @ mid @ [LockRelease]" and
    l: "LockAcquire \<notin> set mid" "LockRelease \<notin> set mid" "\<forall>v. OccupancyTest v \<notin> set mid" and
    c: "\<forall>p. SetCurrent (Some p) \<in> set mid \<longrightarrow>
           (current_process idle = None \<or> (\<exists>q. current_process idle = Some q \<and> poll print_host q \<noteq> None))
           \<and> current_process first_accepted = Some p"
    using slot_set_under_lock_when_not_busy
      [of print_host print_command "Some ''doc''" "Some (ascii ''Beginning print'')" None idle]
    unfolding first_accepted_def by blast
  from t have m: "SetCurrent (Some lp_proc) \<in> set mid"
    by (auto simp: first_accepted_def start_spawned [OF a b])
  with c have "current_process first_accepted = Some lp_proc" by blast
  with t l m n show ?thesis
    by auto
qed

text \<open>
  C2 as stated fails: the slot is set to a new process while it still holds the process
  of the first job, whose worker has not yet cleared it, because that process has exited.
\<close>

theorem slot_set_while_not_empty:
  "current_process first_accepted = Some lp_proc
   \<and> trace (fst (start_process_and_stream exited_host print_command (Some ''doc'')
               (Some (ascii ''Beginning print'')) None first_accepted))
     = trace first_accepted @
         [LockAcquire, OccupancyTest (Some lp_proc), Emit console_clear,
          Emit (console_output (ascii ''[Beginning print]\<newline>'')),
          Popen print_command, SetCurrent (Some (lp_proc\<lparr>pid := 2\<rparr>)), LockRelease]"
proof -
  have a: "\<not> busy print_host idle"
    by (simp add: busy_def idle_def)
  have b: "Popen_result print_host print_command = Inr lp_proc"
    by (simp add: print_host_def)
  have c: "current_process first_accepted = Some lp_proc"
    by (simp add: first_accepted_def start_spawned [OF a b])
  have d: "\<not> busy exited_host first_accepted"
    by (simp add: busy_def c exited_host_def)
  have e: "Popen_result exited_host print_command = Inr (lp_proc\<lparr>pid := 2\<rparr>)"
    by (simp add: exited_host_def)
  show ?thesis
    by (simp add: c start_spawned [OF d e] welcome_events_def welcome_text_def ascii_def)
qed

text \<open>
  C3. A submission that passes the occupancy test and whose \<^verbatim>\<open>Popen\<close> raises: after the
  clear and the optional welcome line, exactly one output event reports the failure, the
  slot is set back to empty under the same lock, and the call returns without starting
  a worker, so that nothing is written to a child, read from one or waited for. The job
  is over when the call returns, and the slot is free for any next submission.
\<close>

theorem spawn_failure_releases_slot:
  assumes "\<not> busy w s" and "Popen_result w command = Inl e"
  shows "start_process_and_stream w command stdin_data welcome_msg end_file s =
           (s\<lparr>current_process := None,
              trace := trace s @ [LockAcquire, OccupancyTest (current_process s), Emit console_clear]
                @ map Emit (welcome_events welcome_msg)
                @ [Popen command,
                   Emit (console_output
                     (ascii ''Failed to start command: '' @ str_of e @ ascii ''\<newline>'')),
                   SetCurrent None, LockRelease]\<rparr>,
            None)
         \<and> run_job w command stdin_data welcome_msg end_file s =
             fst (start_process_and_stream w command stdin_data welcome_msg end_file s)
         \<and> \<not> busy w' (run_job w command stdin_data welcome_msg end_file s)"
  using assms
  by (simp add: start_spawn_failed run_job_def spawn_failure_text_def busy_def)

theorem spawn_failure_releases_slot_witness:
  "\<not> busy bare_host idle \<and> Popen_result bare_host [ascii ''nonexistent''] = Inl no_such_file
   \<and> start_process_and_stream bare_host [ascii ''nonexistent''] None None None idle =
        (\<lparr>current_process = None,
           trace = [LockAcquire, OccupancyTest None, Emit console_clear,
              Popen [ascii ''nonexistent''],
              Emit (console_output
                (ascii ''Failed to start command: [Errno 2] No such file or directory\<newline>'')),
              SetCurrent None, LockRelease]\<rparr>,
         None)
   \<and> \<not> busy bare_host (run_job bare_host [ascii ''nonexistent''] None None None idle)"
proof -
  have h1: "\<not> busy bare_host idle"
    by (simp add: busy_def idle_def)
  have h2: "Popen_result bare_host [ascii ''nonexistent''] = Inl no_such_file"
    by (simp add: bare_host_def)
  show ?thesis
    using spawn_failure_releases_slot [OF h1 h2, of None None None bare_host] h1 h2
    by (simp add: idle_def welcome_events_def no_such_file_def ascii_def busy_def)
qed

text \<open>
  C4. The events of a job that passed the occupancy test are, in this order: the clear;
  the welcome line, if there is a message; output events only; and then at most one
  \<^verbatim>\<open>open_url\<close>, which follows the exit line directly. If the child started and the
  worker met no error (the stdin write and close, every read and \<^verbatim>\<open>wait\<close> returned, and
  \<^verbatim>\<open>TARGET_URL\<close> is set if the end file exists), the output events are one for each
  chunk read and then the exit line, and the \<^verbatim>\<open>open_url\<close> is there if and only if the
  end file exists. For \<^verbatim>\<open>echo hi\<close> the events are the clear, \<^verbatim>\<open>hi\<close> and the exit line with
  code 0.
\<close>

theorem events_in_order:
  assumes "\<not> busy w s"
  shows "\<exists>outputs ending.
           emitted (trace (run_job w command stdin_data welcome_msg end_file s)) =
             emitted (trace s) @ [console_clear] @ welcome_events welcome_msg
               @ map console_output outputs @ ending
         \<and> (ending = [] \<or>
              (\<exists>locator retcode. ending = [open_url locator] \<and> outputs \<noteq> []
                 \<and> last outputs = exit_text retcode))
         \<and> (\<forall>p retcode u.
               Popen_result w command = Inr p
               \<and> (stdin_data = None \<or> (stdin_write p = None \<and> stdin_close p = None))
               \<and> read_failure (stdout_bursts p) = None \<and> wait_result p = Inr retcode
               \<and> (TARGET_URL w = Some u \<or> \<not> (truthy end_file \<and> path_exists w (the end_file)))
               \<longrightarrow>
               outputs = map decode_utf8_replace (chunks_read (stdout_bursts p))
                 @ [ascii ''\<newline>[process exited with code '' @ str_int retcode @ ascii '']\<newline>'']
               \<and> ending = (if truthy end_file \<and> path_exists w (the end_file)
                            then [open_url (u @ the end_file)] else []))"
proof (cases "Popen_result w command")
  case (Inl e)
  with assms have "emitted (trace (run_job w command stdin_data welcome_msg end_file s)) =
             emitted (trace s) @ [console_clear] @ welcome_events welcome_msg
               @ map console_output [spawn_failure_text e] @ []"
    by (simp add: run_job_def start_spawn_failed)
  with Inl show ?thesis
    by (intro exI [of _ "[spawn_failure_text e]"] exI [of _ "[]"]) simp
next
  case (Inr p)
  obtain ts where ts: "emitted (stdin_trace p stdin_data) = map console_output ts"
    using emitted_stdin_trace_outputs by blast
  have ts_ok: "stdin_data = None \<or> (stdin_write p = None \<and> stdin_close p = None) \<Longrightarrow> ts = []"
    using ts emitted_stdin_trace_ok [of stdin_data p] by simp
  let ?texts = "map decode_utf8_replace (chunks_read (stdout_bursts p))"
  have run: "emitted (trace (run_job w command stdin_data welcome_msg end_file s)) =
      emitted (trace s) @ [console_clear] @ welcome_events welcome_msg
        @ emitted (body_trace w p stdin_data end_file)"
    using assms Inr by (simp add: run_job_eq)
  show ?thesis
  proof (cases "read_failure (stdout_bursts p)")
    case (Some e)
    then have "emitted (body_trace w p stdin_data end_file) = map console_output (ts @ ?texts) @ []"
      by (simp add: body_trace_def ts o_def)
    with run Some Inr show ?thesis
      by (intro exI [of _ "ts @ ?texts"] exI [of _ "[]"]) simp
  next
    case None
    show ?thesis
    proof (cases "wait_result p")
      case (Inl e)
      with None have "emitted (body_trace w p stdin_data end_file) = map console_output (ts @ ?texts) @ []"
        by (simp add: body_trace_def wait_trace_def ts o_def)
      with run Inl Inr show ?thesis
        by (intro exI [of _ "ts @ ?texts"] exI [of _ "[]"]) simp
    next
      case rc: (Inr retcode)
      let ?ending = "emitted (end_file_trace w end_file)"
      from None rc have b: "emitted (body_trace w p stdin_data end_file) =
          map console_output (ts @ ?texts @ [exit_text retcode]) @ ?ending"
        by (simp add: body_trace_def wait_trace_def ts o_def)
      have e1: "?ending = [] \<or> (\<exists>locator. ?ending = [open_url locator])"
        by (simp add: emitted_end_file_trace split: option.splits)
      have e2: "TARGET_URL w = Some u \<or> \<not> (truthy end_file \<and> path_exists w (the end_file)) \<Longrightarrow>
          ?ending = (if truthy end_file \<and> path_exists w (the end_file)
                            then [open_url (u @ the end_file)] else [])" for u
        by (auto simp: emitted_end_file_trace)
      show ?thesis
        apply (rule exI [of _ "ts @ ?texts @ [exit_text retcode]"])
        apply (rule exI [of _ ?ending])
        using run b e1 e2 ts_ok Inr rc
        apply (auto simp: exit_text_def)
        done
    qed
  qed
qed

theorem events_in_order_witness:
  "\<not> busy echo_host idle \<and> Popen_result echo_host echo_command = Inr echo_proc
   \<and> read_failure (stdout_bursts echo_proc) = None \<and> wait_result echo_proc = Inr 0
   \<and> emitted (trace (run_job echo_host [ascii ''echo'', ascii ''hi''] None None None idle)) =
       [console_clear, console_output (ascii ''hi\<newline>''),
        console_output (ascii ''\<newline>[process exited with code 0]\<newline>'')]"
proof -
  have h1: "\<not> busy echo_host idle"
    by (simp add: busy_def idle_def)
  have h2: "Popen_result echo_host echo_command = Inr echo_proc"
    by (simp add: echo_host_def)
  have h4: "read_failure (stdout_bursts echo_proc) = None"
    by (rule read_failure_echo)
  have h5: "wait_result echo_proc = Inr 0"
    by (simp add: echo_proc_def)
  have dec: "decode_utf8_replace ''hi\<newline>'' = ascii ''hi\<newline>''"
    by (simp add: ascii_def)
  have num: "ascii ''\<newline>[process exited with code '' @ str_int 0 @ ascii '']\<newline>''
               = ascii ''\<newline>[process exited with code 0]\<newline>''"
    by (simp add: str_int_def str_nat.simps ascii_def)
  from events_in_order [OF h1, of echo_command None None None]
  obtain outputs ending where
    a: "emitted (trace (run_job echo_host echo_command None None None idle)) =
          emitted (trace idle) @ [console_clear] @ welcome_events None
            @ map console_output outputs @ ending"
    and c: "\<forall>p retcode u.
               Popen_result echo_host echo_command = Inr p
               \<and> (None = (None :: bytes option) \<or> (stdin_write p = None \<and> stdin_close p = None))
               \<and> read_failure (stdout_bursts p) = None \<and> wait_result p = Inr retcode
               \<and> (TARGET_URL echo_host = Some u \<or> \<not> (truthy None \<and> path_exists echo_host (the None)))
               \<longrightarrow>
               outputs = map decode_utf8_replace (chunks_read (stdout_bursts p))
                 @ [ascii ''\<newline>[process exited with code '' @ str_int retcode @ ascii '']\<newline>'']
               \<and> ending = (if truthy None \<and> path_exists echo_host (the None)
                            then [open_url (u @ the None)] else [])"
    by blast
  from c [rule_format, of echo_proc 0 "[]"] h2 h4 h5
  have "outputs = [ascii ''hi\<newline>'', ascii ''\<newline>[process exited with code 0]\<newline>'']"
    and "ending = []"
    by (simp_all add: chunks_read_echo dec num del: decode_utf8_replace.simps)
  with a h1 h2 h4 h5 show ?thesis
    by (simp add: welcome_events_def idle_def echo_command_def)
qed

text \<open>
  C5, as the source has it. A job with an end file \<open>f\<close> whose worker reaches the end-file
  step (the child started, every read and \<^verbatim>\<open>wait\<close> returned). If the file exists when the
  exit line has been emitted and \<^verbatim>\<open>TARGET_URL\<close> is set on the host, the job emits, after
  all the events of the same job without an end file (which end with the exit line and
  hold no \<^verbatim>\<open>open_url\<close>), one \<^verbatim>\<open>open_url\<close> whose locator is \<^verbatim>\<open>TARGET_URL\<close> followed by \<open>f\<close>,
  and schedules the removal of \<open>f\<close> once, with delay 30. If the file does not exist,
  the events are those of the job without an end file and nothing is scheduled, whether
  \<^verbatim>\<open>TARGET_URL\<close> is set or not. In both cases the worker ends without an exception.
\<close>

theorem end_file_announced_when_it_exists:
  assumes "\<not> busy w s" and "Popen_result w command = Inr p"
    and "read_failure (stdout_bursts p) = None" and "wait_result p = Inr retcode"
    and "TARGET_URL w = Some u \<or> \<not> (f \<noteq> [] \<and> path_exists w f)"
  shows "emitted (trace (run_job w command stdin_data welcome_msg (Some f) s)) =
           emitted (trace (run_job w command stdin_data welcome_msg None s))
             @ (if f \<noteq> [] \<and> path_exists w f then [open_url (u @ f)] else [])
       \<and> (\<exists>evs. emitted (trace (run_job w command stdin_data welcome_msg None s)) =
             emitted (trace s) @ evs @ [console_output (exit_text retcode)] \<and> locators evs = [])
       \<and> scheduled (trace (run_job w command stdin_data welcome_msg (Some f) s)) =
           scheduled (trace s) @ (if f \<noteq> [] \<and> path_exists w f then [(f, 30)] else [])
       \<and> fst (stream_output w (Some p) stdin_data (Some f)
                (fst (start_process_and_stream w command stdin_data welcome_msg (Some f) s))) = None"
proof -
  have a: "emitted (trace (run_job w command stdin_data welcome_msg (Some f) s)) =
           emitted (trace (run_job w command stdin_data welcome_msg None s))
             @ (if f \<noteq> [] \<and> path_exists w f then [open_url (u @ f)] else [])"
    using assms
    by (auto simp: run_job_eq body_trace_def wait_trace_def emitted_end_file_trace)
  have "emitted (trace (run_job w command stdin_data welcome_msg None s)) =
          emitted (trace s) @ ([console_clear] @ welcome_events welcome_msg
            @ emitted (stdin_trace p stdin_data)
            @ map (\<lambda>c. console_output (decode_utf8_replace c)) (chunks_read (stdout_bursts p)))
            @ [console_output (exit_text retcode)]"
    using assms
    by (simp add: run_job_eq body_trace_def wait_trace_def emitted_end_file_trace)
  moreover have "locators ([console_clear] @ welcome_events welcome_msg
            @ emitted (stdin_trace p stdin_data)
            @ map (\<lambda>c. console_output (decode_utf8_replace c)) (chunks_read (stdout_bursts p))) = []"
    by simp
  ultimately have b: "\<exists>evs. emitted (trace (run_job w command stdin_data welcome_msg None s)) =
             emitted (trace s) @ evs @ [console_output (exit_text retcode)] \<and> locators evs = []"
    by blast
  have c: "scheduled (trace (run_job w command stdin_data welcome_msg (Some f) s)) =
           scheduled (trace s) @ (if f \<noteq> [] \<and> path_exists w f then [(f, 30)] else [])"
    using assms
    by (auto simp: run_job_eq body_trace_def wait_trace_def scheduled_end_file_trace)
  have d: "fst (stream_output w (Some p) stdin_data (Some f)
                (fst (start_process_and_stream w command stdin_data welcome_msg (Some f) s))) = None"
    using assms by (intro fst_stream_output_ok [where u = u and retcode = retcode]) auto
  from a b c d show ?thesis by blast
qed

theorem end_file_announced_when_it_exists_witness:
  "\<not> busy scan_host idle \<and> Popen_result scan_host scan_command = Inr scan_proc
   \<and> read_failure (stdout_bursts scan_proc) = None \<and> wait_result scan_proc = Inr 0
   \<and> TARGET_URL scan_host = Some (ascii ''http://host/'')
   \<and> path_exists scan_host (ascii ''scan.pdf'')
   \<and> emitted (trace (run_job scan_host scan_command None (Some (ascii ''Beginning scan''))
          (Some (ascii ''scan.pdf'')) idle)) =
        emitted (trace (run_job scan_host scan_command None (Some (ascii ''Beginning scan''))
          None idle)) @ [open_url (ascii ''http://host/scan.pdf'')]
   \<and> scheduled (trace (run_job scan_host scan_command None (Some (ascii ''Beginning scan''))
          (Some (ascii ''scan.pdf'')) idle)) = [(ascii ''scan.pdf'', 30)]
   \<and> \<not> path_exists scan_host (ascii ''page.pdf'')
   \<and> emitted (trace (run_job scan_host scan_command None (Some (ascii ''Beginning scan''))
          (Some (ascii ''page.pdf'')) idle)) =
        emitted (trace (run_job scan_host scan_command None (Some (ascii ''Beginning scan''))
          None idle))
   \<and> scheduled (trace (run_job scan_host scan_command None (Some (ascii ''Beginning scan''))
          (Some (ascii ''page.pdf'')) idle)) = []"
proof -
  have h1: "\<not> busy scan_host idle"
    by (simp add: busy_def idle_def)
  have h2: "Popen_result scan_host scan_command = Inr scan_proc"
    by (simp add: scan_host_def)
  have h3: "read_failure (stdout_bursts scan_proc) = None"
    by (simp add: scan_proc_def read_failure_Inr)
  have h4: "wait_result scan_proc = Inr 0"
    by (simp add: scan_proc_def)
  have h5: "TARGET_URL scan_host = Some (ascii ''http://host/'')"
    by (simp add: scan_host_def)
  have h6: "path_exists scan_host (ascii ''scan.pdf'')"
    by (simp add: scan_host_def)
  have h7: "\<not> path_exists scan_host (ascii ''page.pdf'')"
    by (simp add: scan_host_def ascii_def)
  have h8: "ascii ''scan.pdf'' \<noteq> []" "ascii ''http://host/'' @ ascii ''scan.pdf'' = ascii ''http://host/scan.pdf''"
    by (simp_all add: ascii_def)
  have i: "scheduled (trace idle) = []"
    by (simp add: idle_def)
  from h5 have h5': "TARGET_URL scan_host = Some (ascii ''http://host/'') \<or> \<not> (f \<noteq> [] \<and> path_exists scan_host f)" for f
    by simp
  show ?thesis
    using end_file_announced_when_it_exists [OF h1 h2 h3 h4 h5', where f = "ascii ''scan.pdf''" and stdin_data = None
        and welcome_msg = "Some (ascii ''Beginning scan'')"]
      end_file_announced_when_it_exists [OF h1 h2 h3 h4 h5', where f = "ascii ''page.pdf''" and stdin_data = None
        and welcome_msg = "Some (ascii ''Beginning scan'')"]
      h1 h2 h3 h4 h5 h6 h7 h8 i
    by simp
qed

text \<open>
  C5 as stated fails: on the scan host with \<^verbatim>\<open>END_URL\<close> not set the file exists when the
  exit line has been emitted, yet the scan job emits no \<^verbatim>\<open>open_url\<close> and schedules no
  removal; the worker ends with the \<^verbatim>\<open>TypeError\<close> of \<^verbatim>\<open>TARGET_URL + end_file\<close>.
\<close>

theorem end_file_lost_without_END_URL:
  "TARGET_URL unset_scan_host = None
   \<and> path_exists unset_scan_host (ascii ''scan.pdf'')
   \<and> emitted (trace (run_job unset_scan_host scan_command None
        (Some (ascii ''Beginning scan'')) (Some (ascii ''scan.pdf'')) idle))
      = [console_clear, console_output (ascii ''[Beginning scan]\<newline>''),
         console_output (ascii ''Scanned page 1.\<newline>''),
         console_output (ascii ''\<newline>[process exited with code 0]\<newline>'')]
   \<and> scheduled (trace (run_job unset_scan_host scan_command None
        (Some (ascii ''Beginning scan'')) (Some (ascii ''scan.pdf'')) idle)) = []
   \<and> fst (stream_output unset_scan_host (Some scan_proc) None (Some (ascii ''scan.pdf''))
        (fst (start_process_and_stream unset_scan_host scan_command None
           (Some (ascii ''Beginning scan'')) (Some (ascii ''scan.pdf'')) idle)))
      = Some TypeError"
proof -
  have h1: "\<not> busy unset_scan_host idle"
    by (simp add: busy_def idle_def)
  have h2: "Popen_result unset_scan_host scan_command = Inr scan_proc"
    by (simp add: unset_scan_host_def scan_host_def)
  have u: "TARGET_URL unset_scan_host = None"
    by (simp add: unset_scan_host_def)
  have x: "path_exists unset_scan_host (ascii ''scan.pdf'')"
    by (simp add: unset_scan_host_def scan_host_def)
  have n: "ascii ''scan.pdf'' \<noteq> []"
    by (simp add: ascii_def)
  have r: "read_failure (stdout_bursts scan_proc) = None"
    by (simp add: scan_proc_def read_failure_Inr)
  have c: "chunks_read (stdout_bursts scan_proc) = [''Scanned page 1.\<newline>'']"
    by (simp add: scan_proc_def chunks_read_Inr)
  have d: "drain (stdout_bursts scan_proc) s = (None, s\<lparr>trace := trace s @ drain_trace (stdout_bursts scan_proc)\<rparr>)" for s
    using r by (simp add: drain_eq)
  have wr: "wait_result scan_proc = Inr 0"
    by (simp add: scan_proc_def)
  have dec: "decode_utf8_replace ''Scanned page 1.\<newline>'' = ascii ''Scanned page 1.\<newline>''"
    by (simp add: ascii_def single_byte_def)
  have ex: "exit_text 0 = ascii ''\<newline>[process exited with code 0]\<newline>''"
    by (simp add: exit_text_def str_int_def str_nat.simps ascii_def)
  have wl: "welcome_events (Some (ascii ''Beginning scan'')) = [console_output (ascii ''[Beginning scan]\<newline>'')]"
    by (simp add: welcome_events_def welcome_text_def ascii_def)
  have e: "end_file_trace unset_scan_host (Some (ascii ''scan.pdf'')) = [PathExists (ascii ''scan.pdf'')]"
    using u x n by (simp add: end_file_trace_def)
  have i: "trace idle = []"
    by (simp add: idle_def)
  have a: "emitted (trace (run_job unset_scan_host scan_command None
        (Some (ascii ''Beginning scan'')) (Some (ascii ''scan.pdf'')) idle))
      = [console_clear, console_output (ascii ''[Beginning scan]\<newline>''),
         console_output (ascii ''Scanned page 1.\<newline>''),
         console_output (ascii ''\<newline>[process exited with code 0]\<newline>'')]"
    by (simp add: run_job_eq [OF h1 h2] body_trace_def wait_trace_def r wr e i c dec ex wl
        stdin_trace_def del: decode_utf8_replace.simps)
  have b: "scheduled (trace (run_job unset_scan_host scan_command None
        (Some (ascii ''Beginning scan'')) (Some (ascii ''scan.pdf'')) idle)) = []"
    by (simp add: run_job_eq [OF h1 h2] body_trace_def wait_trace_def r wr e i stdin_trace_def)
  have f: "fst (stream_output unset_scan_host (Some scan_proc) None (Some (ascii ''scan.pdf'')) s)
      = Some TypeError" for s
    using u x n
    by (simp add: stream_output_def stream_output_body_def d wait_and_report_def wr
        announce_end_file_def Let_def split: prod.splits)
  from u x a b f show ?thesis by simp
qed

text \<open>
  C6. A job whose child started. After the stdin step the worker reads the pipe again
  and again and emits one output event for each chunk it gets, until a read returns
  nothing (the pipe is closed) or raises. Every chunk is non-empty and at most 4096
  bytes long; the chunks, joined, are the bytes that the child delivered until then, all
  of them when no read fails. The texts of the events, joined, are the decoding of those
  bytes in which some characters are replaced by one or more replacement markers, at
  most one character for each boundary between two chunks; and if the texts hold no
  replacement marker they are that decoding exactly.
\<close>

theorem output_drained_in_chunks:
  assumes "\<not> busy w s" and "Popen_result w command = Inr p"
  shows "(\<exists>after.
            trace (run_job w command stdin_data welcome_msg end_file s) =
              trace s @ [LockAcquire, OccupancyTest (current_process s), Emit console_clear]
                @ map Emit (welcome_events welcome_msg)
                @ [Popen command, SetCurrent (Some p), LockRelease] @ stdin_trace p stdin_data
                @ concat (map (\<lambda>chunk. [StdoutRead, Emit (console_output (decode_utf8_replace chunk))])
                    (chunks_read (stdout_bursts p)))
                @ StdoutRead # after)
       \<and> (\<forall>chunk \<in> set (chunks_read (stdout_bursts p)). chunk \<noteq> [] \<and> length chunk \<le> 4096)
       \<and> concat (chunks_read (stdout_bursts p)) = delivered (stdout_bursts p)
       \<and> (\<forall>bs. stdout_bursts p = map Inr bs \<and> [] \<notin> set bs \<longrightarrow>
             delivered (stdout_bursts p) = concat bs)
       \<and> (\<exists>ns. length ns = length (decode_utf8_replace (delivered (stdout_bursts p)))
             \<and> concat (map decode_utf8_replace (chunks_read (stdout_bursts p))) =
                 substitute (decode_utf8_replace (delivered (stdout_bursts p))) ns
             \<and> length (filter (\<lambda>n. 0 < n) ns) \<le> length (chunks_read (stdout_bursts p)) - 1)
       \<and> (U_FFFD \<notin> set (concat (map decode_utf8_replace (chunks_read (stdout_bursts p)))) \<longrightarrow>
             concat (map decode_utf8_replace (chunks_read (stdout_bursts p))) =
               decode_utf8_replace (delivered (stdout_bursts p)))"
proof -
  let ?pipe = "stdout_bursts p"
  let ?chunks = "chunks_read ?pipe"
  have a: "\<exists>after.
            trace (run_job w command stdin_data welcome_msg end_file s) =
              trace s @ [LockAcquire, OccupancyTest (current_process s), Emit console_clear]
                @ map Emit (welcome_events welcome_msg)
                @ [Popen command, SetCurrent (Some p), LockRelease] @ stdin_trace p stdin_data
                @ concat (map (\<lambda>chunk. [StdoutRead, Emit (console_output (decode_utf8_replace chunk))])
                    ?chunks)
                @ StdoutRead # after"
    using assms by (simp add: run_job_eq body_trace_def drain_trace_def)
  have b: "\<forall>chunk \<in> set ?chunks. chunk \<noteq> [] \<and> length chunk \<le> 4096"
    using chunks_read_bounded by blast
  have c: "concat ?chunks = delivered ?pipe"
    by (rule concat_chunks_read)
  have d: "\<forall>bs. ?pipe = map Inr bs \<and> [] \<notin> set bs \<longrightarrow> delivered ?pipe = concat bs"
    by (auto simp: delivered_all)
  have r: "replaced (length ?chunks - 1) (decode_utf8_replace (delivered ?pipe))
             (concat (map decode_utf8_replace ?chunks))"
    using decode_chunks [of ?chunks] by (simp add: c)
  have e: "\<exists>ns. length ns = length (decode_utf8_replace (delivered ?pipe))
             \<and> concat (map decode_utf8_replace ?chunks) =
                 substitute (decode_utf8_replace (delivered ?pipe)) ns
             \<and> length (filter (\<lambda>n. 0 < n) ns) \<le> length ?chunks - 1"
    using replaced_substitute [OF r] .
  have f: "U_FFFD \<notin> set (concat (map decode_utf8_replace ?chunks)) \<longrightarrow>
             concat (map decode_utf8_replace ?chunks) = decode_utf8_replace (delivered ?pipe)"
    using replaced_unmarked [OF r] by blast
  from a b c d e f show ?thesis by blast
qed

theorem output_drained_in_chunks_witness:
  "\<not> busy accent_host idle \<and> Popen_result accent_host echo_command = Inr accent_proc
   \<and> chunks_read (stdout_bursts accent_proc) = [[CHR 0x68, CHR 0xC3], [CHR 0xA9, CHR 0x21]]
   \<and> delivered (stdout_bursts accent_proc) = [CHR 0x68, CHR 0xC3, CHR 0xA9, CHR 0x21]
   \<and> decode_utf8_replace (delivered (stdout_bursts accent_proc)) = [104, 233, 33]
   \<and> concat (map decode_utf8_replace (chunks_read (stdout_bursts accent_proc))) =
        [104, 65533, 65533, 33]
   \<and> (\<exists>ns. length ns = 3 \<and> [104, 65533, 65533, 33] = substitute [104, 233, 33] ns
         \<and> length (filter (\<lambda>n. 0 < n) ns) \<le> 1)"
proof -
  have h1: "\<not> busy accent_host idle"
    by (simp add: busy_def idle_def)
  have h2: "Popen_result accent_host echo_command = Inr accent_proc"
    by (simp add: accent_host_def)
  have c: "chunks_read (stdout_bursts accent_proc) = [[CHR 0x68, CHR 0xC3], [CHR 0xA9, CHR 0x21]]"
    by (simp add: accent_proc_def chunks_read_Inr)
  have d: "delivered (stdout_bursts accent_proc) = [CHR 0x68, CHR 0xC3, CHR 0xA9, CHR 0x21]"
    by (simp add: accent_proc_def)
  have e: "decode_utf8_replace [CHR 0x68, CHR 0xC3, CHR 0xA9, CHR 0x21] = [104, 233, 33]"
    by (simp add: is_continuation_def low6_def)
  have f: "decode_utf8_replace [CHR 0x68, CHR 0xC3] = [104, 65533]"
    "decode_utf8_replace [CHR 0xA9, CHR 0x21] = [65533, 33]"
    by (simp_all add: U_FFFD_def)
  note g = output_drained_in_chunks [OF h1 h2, of None None None, THEN conjunct2,
      THEN conjunct2, THEN conjunct2, THEN conjunct2, THEN conjunct1]
  from g have "\<exists>ns. length ns = 3 \<and> [104, 65533, 65533, 33] = substitute [104, 233, 33] ns
         \<and> length (filter (\<lambda>n. 0 < n) ns) \<le> 1"
    unfolding c d e by (simp add: f numeral_3_eq_3 del: decode_utf8_replace.simps)
  with h1 h2 show ?thesis
    by (simp add: c d e f del: decode_utf8_replace.simps)
qed



text \<open>
  C8, as the source has it. A submission that passes the occupancy test emits the clear
  first and then, if the welcome message is neither absent nor empty, one output event
  whose text is the message in square brackets followed by a newline; only then comes
  the one call of \<^verbatim>\<open>Popen\<close>.
\<close>

theorem clear_then_welcome_then_spawn:
  assumes "\<not> busy w s"
  shows "\<exists>rest.
           trace (fst (start_process_and_stream w command stdin_data welcome_msg end_file s)) =
             trace s @ [LockAcquire, OccupancyTest (current_process s), Emit console_clear]
               @ (case welcome_msg of
                    None \<Rightarrow> []
                  | Some m \<Rightarrow>
                      if m = [] then []
                      else [Emit (console_output (ascii ''['' @ m @ ascii '']\<newline>''))])
               @ [Popen command] @ rest
         \<and> (\<forall>c. Popen c \<notin> set rest) \<and> Emit console_clear \<notin> set rest"
proof (cases "Popen_result w command")
  case (Inl e)
  with assms show ?thesis
    by (cases welcome_msg) (simp_all add: start_spawn_failed welcome_events_def welcome_text_def)
next
  case (Inr p)
  with assms show ?thesis
    by (cases welcome_msg) (simp_all add: start_spawned welcome_events_def welcome_text_def)
qed

theorem clear_then_welcome_then_spawn_witness:
  "\<not> busy print_host idle
   \<and> (\<exists>rest. trace first_accepted =
         [LockAcquire, OccupancyTest None, Emit console_clear,
          Emit (console_output (ascii ''[Beginning print]\<newline>'')), Popen print_command] @ rest
       \<and> (\<forall>c. Popen c \<notin> set rest) \<and> Emit console_clear \<notin> set rest)"
proof -
  have h1: "\<not> busy print_host idle"
    by (simp add: busy_def idle_def)
  have t: "ascii ''['' @ ascii ''Beginning print'' @ ascii '']\<newline>'' = ascii ''[Beginning print]\<newline>''"
    "ascii ''Beginning print'' \<noteq> []" "trace idle = []" "current_process idle = None"
    by (simp_all add: ascii_def idle_def)
  show ?thesis
    using clear_then_welcome_then_spawn [OF h1, where command = print_command
        and stdin_data = "Some ''doc''" and welcome_msg = "Some (ascii ''Beginning print'')"
        and end_file = None] h1 t
    by (simp add: first_accepted_def)
qed

text \<open>
  C8 as stated fails: for the welcome message \<^verbatim>\<open>Beginning print\<close> the events before the
  spawn are the clear and an output with the text \<^verbatim>\<open>[Beginning print]\<close> and a newline; no
  event has the message itself as its text.
\<close>

theorem welcome_text_is_not_the_message:
  "emitted (trace first_accepted) =
     [console_clear, console_output (ascii ''[Beginning print]\<newline>'')]
   \<and> console_output (ascii ''Beginning print'') \<notin> set (emitted (trace first_accepted))"
proof -
  have a: "\<not> busy print_host idle"
    by (simp add: busy_def idle_def)
  have b: "Popen_result print_host print_command = Inr lp_proc"
    by (simp add: print_host_def)
  have c: "trace idle = []"
    by (simp add: idle_def)
  show ?thesis
    by (simp add: first_accepted_def start_spawned [OF a b] welcome_events_def welcome_text_def
        ascii_def c)
qed

text \<open>
  C9, as the source has it. The host's environment enters a job through \<^verbatim>\<open>TARGET_URL\<close>,
  the value of the environment variable \<^verbatim>\<open>END_URL\<close>, and only in the end-file step: a job
  without an end file runs the same whatever \<^verbatim>\<open>TARGET_URL\<close> is. On a host where it is set,
  a job with an end file emits the events of the same job without one and then at most
  one more event, an \<^verbatim>\<open>open_url\<close> whose locator is \<^verbatim>\<open>TARGET_URL\<close> followed by the end file;
  it emits that event when the worker reaches the end-file step and the file exists; and
  it schedules one removal, of the end file with the delay 30 written in
  \<^verbatim>\<open>stream_output\<close>, when it emits that event, and none otherwise. Hence on two hosts
  that differ only in the value that \<^verbatim>\<open>END_URL\<close> is set to, the same job from the same
  state emits the same events but for that locator and schedules the same removals. The
  only command that a job starts is the one submitted.
\<close>

theorem host_matters_only_in_locator:
  assumes "TARGET_URL w = Some u"
  shows "run_job (w\<lparr>TARGET_URL := t\<rparr>) command stdin_data welcome_msg None s
           = run_job w command stdin_data welcome_msg None s
     \<and> (\<exists>ending.
          emitted (trace (run_job w command stdin_data welcome_msg end_file s))
            = emitted (trace (run_job w command stdin_data welcome_msg None s)) @ ending
          \<and> (ending = [] \<or> ending = [open_url (u @ the end_file)])
          \<and> (\<not> busy w s \<and> Popen_result w command = Inr p
               \<and> read_failure (stdout_bursts p) = None \<and> wait_result p = Inr retcode
               \<and> truthy end_file \<and> path_exists w (the end_file)
              \<longrightarrow> ending = [open_url (u @ the end_file)])
          \<and> scheduled (trace (run_job w command stdin_data welcome_msg end_file s))
            = scheduled (trace s) @ (if ending = [] then [] else [(the end_file, 30)]))
     \<and> map erase_locator
           (emitted (trace (run_job (w\<lparr>TARGET_URL := Some u'\<rparr>) command stdin_data welcome_msg end_file s)))
         = map erase_locator
           (emitted (trace (run_job w command stdin_data welcome_msg end_file s)))
     \<and> scheduled (trace (run_job (w\<lparr>TARGET_URL := Some u'\<rparr>) command stdin_data welcome_msg end_file s))
         = scheduled (trace (run_job w command stdin_data welcome_msg end_file s))
     \<and> commands (trace (run_job w command stdin_data welcome_msg end_file s))
         = commands (trace s) @ (if busy w s then [] else [command])"
proof -
  have a: "run_job (w\<lparr>TARGET_URL := t\<rparr>) command stdin_data welcome_msg None s
           = run_job w command stdin_data welcome_msg None s"
    by (rule run_job_None_TARGET_URL)
  have b: "\<exists>ending.
          emitted (trace (run_job w command stdin_data welcome_msg end_file s))
            = emitted (trace (run_job w command stdin_data welcome_msg None s)) @ ending
          \<and> (ending = [] \<or> ending = [open_url (u @ the end_file)])
          \<and> (\<not> busy w s \<and> Popen_result w command = Inr p
               \<and> read_failure (stdout_bursts p) = None \<and> wait_result p = Inr retcode
               \<and> truthy end_file \<and> path_exists w (the end_file)
              \<longrightarrow> ending = [open_url (u @ the end_file)])
          \<and> scheduled (trace (run_job w command stdin_data welcome_msg end_file s))
            = scheduled (trace s) @ (if ending = [] then [] else [(the end_file, 30)])"
  proof (cases "busy w s")
    case True
    then show ?thesis by (simp add: run_job_busy)
  next
    case False
    show ?thesis
    proof (cases "Popen_result w command")
      case (Inl e)
      with False show ?thesis
        by (simp add: run_job_spawn_failed)
    next
      case (Inr q)
      let ?E = "end_file_events w q end_file"
      from False Inr have e1: "run_job w command stdin_data welcome_msg end_file s =
           s\<lparr>current_process := None,
              trace := trace s @ [LockAcquire, OccupancyTest (current_process s), Emit console_clear]
                @ map Emit (welcome_events welcome_msg)
                @ [Popen command, SetCurrent (Some q), LockRelease]
                @ body_trace w q stdin_data end_file
                @ [LockAcquire, SetCurrent None, LockRelease]\<rparr>" for end_file
        by (rule run_job_eq)
      have 1: "emitted (trace (run_job w command stdin_data welcome_msg end_file s))
            = emitted (trace (run_job w command stdin_data welcome_msg None s)) @ ?E"
        by (simp add: e1 emitted_body_trace_end_file [of w q stdin_data end_file])
      have 2: "?E = [] \<or> ?E = [open_url (u @ the end_file)]"
        using end_file_events_cases [of w q end_file] assms by auto
      have 3: "\<not> busy w s \<and> Popen_result w command = Inr p
               \<and> read_failure (stdout_bursts p) = None \<and> wait_result p = Inr retcode
               \<and> truthy end_file \<and> path_exists w (the end_file)
              \<longrightarrow> ?E = [open_url (u @ the end_file)]"
        using Inr assms by (auto simp: end_file_events_reached)
      have 4: "scheduled (trace (run_job w command stdin_data welcome_msg end_file s))
            = scheduled (trace s) @ (if ?E = [] then [] else [(the end_file, 30)])"
        by (simp add: e1 scheduled_body_trace_end_file)
      show ?thesis
        by (rule exI [of _ ?E], intro conjI, rule 1, rule 2, rule 3, rule 4)
    qed
  qed
  have c: "map erase_locator
           (emitted (trace (run_job (w\<lparr>TARGET_URL := Some u'\<rparr>) command stdin_data welcome_msg end_file s)))
         = map erase_locator
           (emitted (trace (run_job w command stdin_data welcome_msg end_file s)))
     \<and> scheduled (trace (run_job (w\<lparr>TARGET_URL := Some u'\<rparr>) command stdin_data welcome_msg end_file s))
         = scheduled (trace (run_job w command stdin_data welcome_msg end_file s))"
  proof (cases "busy w s")
    case True
    then show ?thesis by (simp add: run_job_busy)
  next
    case False
    show ?thesis
    proof (cases "Popen_result w command")
      case (Inl e)
      with False show ?thesis
        by (simp add: run_job_spawn_failed)
    next
      case (Inr q)
      with False show ?thesis
        by (simp add: run_job_eq body_trace_TARGET_URL [OF assms])
    qed
  qed
  have d: "commands (trace (run_job w command stdin_data welcome_msg end_file s))
         = commands (trace s) @ (if busy w s then [] else [command])"
  proof (cases "busy w s")
    case True
    then show ?thesis by (simp add: run_job_busy)
  next
    case False
    then show ?thesis
      by (cases "Popen_result w command") (simp_all add: run_job_spawn_failed run_job_eq)
  qed
  from a b c d show ?thesis by blast
qed

theorem host_matters_only_in_locator_witness:
  "TARGET_URL scan_host = Some (ascii ''http://host/'')
   \<and> run_job other_scan_host scan_command None (Some (ascii ''Beginning scan'')) None idle
      = run_job scan_host scan_command None (Some (ascii ''Beginning scan'')) None idle
   \<and> emitted (trace (run_job scan_host scan_command None
           (Some (ascii ''Beginning scan'')) (Some (ascii ''scan.pdf'')) idle))
      = emitted (trace (run_job scan_host scan_command None
           (Some (ascii ''Beginning scan'')) None idle))
          @ [open_url (ascii ''http://host/scan.pdf'')]
   \<and> scheduled (trace (run_job scan_host scan_command None
           (Some (ascii ''Beginning scan'')) (Some (ascii ''scan.pdf'')) idle))
      = [(ascii ''scan.pdf'', 30)]
   \<and> map erase_locator
        (emitted (trace (run_job other_scan_host scan_command None
           (Some (ascii ''Beginning scan'')) (Some (ascii ''scan.pdf'')) idle)))
      = map erase_locator
        (emitted (trace (run_job scan_host scan_command None
           (Some (ascii ''Beginning scan'')) (Some (ascii ''scan.pdf'')) idle)))
   \<and> scheduled (trace (run_job other_scan_host scan_command None
           (Some (ascii ''Beginning scan'')) (Some (ascii ''scan.pdf'')) idle))
      = scheduled (trace (run_job scan_host scan_command None
           (Some (ascii ''Beginning scan'')) (Some (ascii ''scan.pdf'')) idle))
   \<and> commands (trace (run_job scan_host scan_command None
           (Some (ascii ''Beginning scan'')) (Some (ascii ''scan.pdf'')) idle))
      = [scan_command]"
proof -
  have h: "TARGET_URL scan_host = Some (ascii ''http://host/'')"
    by (simp add: scan_host_def)
  have h1: "\<not> busy scan_host idle"
    by (simp add: busy_def idle_def)
  have h2: "Popen_result scan_host scan_command = Inr scan_proc"
    by (simp add: scan_host_def)
  have h3: "read_failure (stdout_bursts scan_proc) = None"
    by (simp add: scan_proc_def read_failure_Inr)
  have h4: "wait_result scan_proc = Inr 0"
    by (simp add: scan_proc_def)
  have h5: "truthy (Some (ascii ''scan.pdf''))" "path_exists scan_host (ascii ''scan.pdf'')"
    "ascii ''http://host/'' @ ascii ''scan.pdf'' = ascii ''http://host/scan.pdf''"
    "ascii ''scan.pdf'' \<noteq> []"
    by (simp_all add: scan_host_def ascii_def)
  have i: "scheduled (trace idle) = []" "commands (trace idle) = []"
    by (simp_all add: idle_def)
  show ?thesis
    using host_matters_only_in_locator [OF h, where t = "Some (ascii ''http://other/'')"
        and u' = "ascii ''http://other/''" and command = scan_command and stdin_data = None
        and welcome_msg = "Some (ascii ''Beginning scan'')" and end_file = "Some (ascii ''scan.pdf'')"
        and s = idle and p = scan_proc and retcode = 0]
      h h1 h2 h3 h4 h5 i
    by (auto simp: other_scan_host_def)
qed

text \<open>
  C9 as stated fails: the scan job emits different events on two hosts that differ only
  in \<^verbatim>\<open>END_URL\<close>; and its removal is scheduled with delay 30 though the submission
  passed no delay.
\<close>

theorem events_differ_with_END_URL:
  "emitted (trace (run_job scan_host scan_command None
      (Some (ascii ''Beginning scan'')) (Some (ascii ''scan.pdf'')) idle))
   \<noteq> emitted (trace (run_job other_scan_host scan_command None
      (Some (ascii ''Beginning scan'')) (Some (ascii ''scan.pdf'')) idle))
   \<and> scheduled (trace (run_job scan_host scan_command None
      (Some (ascii ''Beginning scan'')) (Some (ascii ''scan.pdf'')) idle)) = [(ascii ''scan.pdf'', 30)]"
proof -
  have h1: "\<not> busy scan_host idle" "\<not> busy other_scan_host idle"
    by (simp_all add: busy_def idle_def)
  have h2: "Popen_result scan_host scan_command = Inr scan_proc"
    "Popen_result other_scan_host scan_command = Inr scan_proc"
    by (simp_all add: scan_host_def other_scan_host_def)
  have r: "read_failure (stdout_bursts scan_proc) = None"
    by (simp add: scan_proc_def read_failure_Inr)
  have w: "wait_result scan_proc = Inr 0"
    by (simp add: scan_proc_def)
  have e: "end_file_trace scan_host (Some (ascii ''scan.pdf'')) =
             [PathExists (ascii ''scan.pdf''), Emit (open_url (ascii ''http://host/scan.pdf'')),
              DelayedRemove (ascii ''scan.pdf'') 30]"
    "end_file_trace other_scan_host (Some (ascii ''scan.pdf'')) =
             [PathExists (ascii ''scan.pdf''), Emit (open_url (ascii ''http://other/scan.pdf'')),
              DelayedRemove (ascii ''scan.pdf'') 30]"
    by (simp_all add: end_file_trace_def scan_host_def other_scan_host_def ascii_def)
  have d: "open_url (ascii ''http://host/scan.pdf'') \<noteq> open_url (ascii ''http://other/scan.pdf'')"
    by (simp add: ascii_def)
  have i: "trace idle = []"
    by (simp add: idle_def)
  show ?thesis
    using d
    by (simp add: run_job_eq [OF h1(1) h2(1)] run_job_eq [OF h1(2) h2(2)] body_trace_def
        wait_trace_def r w e i stdin_trace_def)
qed

text \<open>
  C10. An empty welcome message and an empty end file are treated as absent, on every
  host and in every state: the submission with the empty message is the submission
  without a message, the end-file step with the empty path does nothing (no existence
  test, no event, no removal, no error), the worker with the empty path is the worker
  without a path, and so is the whole job.
\<close>

theorem empty_strings_count_as_absent:
  "start_process_and_stream w command stdin_data (Some []) end_file s =
     start_process_and_stream w command stdin_data None end_file s
   \<and> announce_end_file w (Some []) s = (None, s)
   \<and> stream_output w proc stdin (Some []) s = stream_output w proc stdin None s
   \<and> run_job w command stdin_data (Some []) (Some []) s = run_job w command stdin_data None None s"
proof -
  have a: "start_process_and_stream w command stdin_data (Some []) ef s =
     start_process_and_stream w command stdin_data None ef s" for ef
    by (simp add: start_process_and_stream_def Let_def)
  have b: "announce_end_file w (Some []) s' = announce_end_file w None s'" for s'
    by (simp add: announce_end_file_def)
  have wr: "wait_and_report w p (Some []) = wait_and_report w p None" for p
    by (rule ext) (simp add: wait_and_report_def Let_def b split: sum.splits)
  have c: "stream_output w pr i (Some []) s' = stream_output w pr i None s'" for pr i s'
    unfolding stream_output_def stream_output_body_def wr by (rule refl)
  have e: "run_job w command stdin_data (Some []) (Some []) s = run_job w command stdin_data None None s"
  proof (cases "busy w s")
    case True
    then show ?thesis by (simp add: run_job_def start_busy)
  next
    case False
    show ?thesis
    proof (cases "Popen_result w command")
      case (Inl x)
      with False show ?thesis
        by (simp add: run_job_def start_spawn_failed welcome_events_def)
    next
      case (Inr p)
      with False show ?thesis
        by (simp add: run_job_def start_spawned welcome_events_def c)
    qed
  qed
  show ?thesis
    by (simp add: a c e) (simp add: announce_end_file_def)
qed

theorem empty_strings_count_as_absent_witness:
  "run_job scan_host scan_command None (Some []) (Some []) idle =
     run_job scan_host scan_command None None None idle
   \<and> emitted (trace (run_job scan_host scan_command None (Some []) (Some []) idle)) =
       [console_clear, console_output (ascii ''Scanned page 1.\<newline>''),
        console_output (ascii ''\<newline>[process exited with code 0]\<newline>'')]
   \<and> scheduled (trace (run_job scan_host scan_command None (Some []) (Some []) idle)) = []"
proof -
  have h1: "\<not> busy scan_host idle"
    by (simp add: busy_def idle_def)
  have h2: "Popen_result scan_host scan_command = Inr scan_proc"
    by (simp add: scan_host_def)
  have c: "chunks_read (stdout_bursts scan_proc) = [''Scanned page 1.\<newline>'']"
    by (simp add: scan_proc_def chunks_read_Inr)
  have r: "read_failure (stdout_bursts scan_proc) = None"
    by (simp add: scan_proc_def read_failure_Inr)
  have w: "wait_result scan_proc = Inr 0"
    by (simp add: scan_proc_def)
  have dec: "decode_utf8_replace ''Scanned page 1.\<newline>'' = ascii ''Scanned page 1.\<newline>''"
    by (simp add: ascii_def)
  have num: "exit_text 0 = ascii ''\<newline>[process exited with code 0]\<newline>''"
    by (simp add: exit_text_def str_int_def str_nat.simps ascii_def)
  have "run_job scan_host scan_command None (Some []) (Some []) idle =
     run_job scan_host scan_command None None None idle"
    using empty_strings_count_as_absent [of scan_host scan_command None None idle None None]
    by simp
  moreover have "trace idle = []"
    by (simp add: idle_def)
  ultimately show ?thesis
    by (simp add: run_job_eq [OF h1 h2] body_trace_def wait_trace_def c r w dec num
        stdin_trace_def end_file_trace_def welcome_events_def ascii_def)
qed

end
